theory Spec2Isabelle
  imports
    Main
    "HOL-Library.Word"
    "HOL-Library.Char_ord"
    "HOL-Library.List_Lexorder"
    "HOL-Library.Multiset"
    "HOL-Library.AList"
    "HOL-Library.Code_Target_Numeral"
begin

unbundle bit_operations_syntax

section \<open>Text, lines and files\<close>

text \<open>
  A Python \<open>str\<close> is represented by its UTF-8 encoding, a \<^typ>\<open>string\<close> of bytes.
  Comparing two \<open>str\<close> values by code point is the same as comparing their UTF-8
  encodings byte by byte (\<open>HOL-Library.Char_ord\<close> and \<open>HOL-Library.List_Lexorder\<close>),
  the tab and newline characters are single bytes that occur inside no multi-byte
  sequence, and \<open>key.encode("utf-8")\<close> is the identity on this representation.
  A file is the text it holds; reading it in text mode translates the line endings
  (Python's universal newlines), writing it on a POSIX system stores the text unchanged.
  The data files are taken to be decodable; what can go wrong when the file of an
  executable is opened and decoded is part of the executable below.
\<close>

abbreviation LF :: char where "LF \<equiv> CHR 0x0A"
abbreviation CR :: char where "CR \<equiv> CHR 0x0D"
abbreviation TAB :: char where "TAB \<equiv> CHR 0x09"

text \<open>Text-mode reading: \<open>\r\n\<close> and a lone \<open>\r\<close> both become \<open>\n\<close>.\<close>

fun universal_newlines :: "string \<Rightarrow> string" where
  "universal_newlines [] = []"
| "universal_newlines [c] = (if c = CR then [LF] else [c])"
| "universal_newlines (c # d # cs) =
     (if c = CR then (if d = LF then LF # universal_newlines cs
                      else LF # universal_newlines (d # cs))
      else c # universal_newlines (d # cs))"

text \<open>
  Iterating over text yields its lines, each with its newline kept; only the last line
  can lack one.
\<close>

fun split_lines :: "string \<Rightarrow> string list" where
  "split_lines [] = []"
| "split_lines (c # cs) =
     (if c = LF then [LF] # split_lines cs
      else (case split_lines cs of [] \<Rightarrow> [[c]] | l # ls \<Rightarrow> (c # l) # ls))"

definition readlines :: "string \<Rightarrow> string list" where
  "readlines raw = split_lines (universal_newlines raw)"

definition readline :: "string \<Rightarrow> string" where
  "readline raw = (case readlines raw of [] \<Rightarrow> [] | l # ls \<Rightarrow> l)"

definition writelines :: "string list \<Rightarrow> string" where
  "writelines ls = concat ls"

text \<open>A directory of plain files: names and contents, in the order the system lists them.\<close>

type_synonym directory = "(string \<times> string) list"

section \<open>Constants and file names\<close>

definition MAX_INPUT_SPLIT_SIZE :: nat where
  "MAX_INPUT_SPLIT_SIZE = 2 ^ 20"

definition MAX_NUM_REDUCE :: nat where
  "MAX_NUM_REDUCE = 4"

definition digit_char :: "nat \<Rightarrow> char" where
  "digit_char d = char_of (48 + d)"

function decimal :: "nat \<Rightarrow> string" where
  "decimal n = (if n < 10 then [digit_char n] else decimal (n div 10) @ [digit_char (n mod 10)])"
  by pat_completeness auto
termination
  by (relation "measure id") auto

declare decimal.simps [simp del]

text \<open>\<open>f"part-{num:05d}"\<close>: at least five digits, padded with zeros on the left.\<close>

definition part_filename :: "nat \<Rightarrow> string" where
  "part_filename num =
     ''part-'' @ replicate (5 - length (decimal num)) CHR ''0'' @ decimal num"

text \<open>
  \<open>str(pathlib.Path(s))\<close> on a POSIX system: the root is \<open>//\<close> for exactly two leading
  slashes and \<open>/\<close> for any other number of them, the empty and the \<open>.\<close> components are
  dropped, the rest is joined with single slashes, and nothing at all is printed as \<open>.\<close>.
\<close>

fun split_slash :: "string \<Rightarrow> string list" where
  "split_slash [] = [[]]"
| "split_slash (c # cs) =
     (if c = CHR ''/'' then [] # split_slash cs
      else (case split_slash cs of [] \<Rightarrow> [[c]] | p # ps \<Rightarrow> (c # p) # ps))"

fun join_slash :: "string list \<Rightarrow> string" where
  "join_slash [] = []"
| "join_slash [p] = p"
| "join_slash (p # q # ps) = p @ ''/'' @ join_slash (q # ps)"

definition pathlib_str :: "string \<Rightarrow> string" where
  "pathlib_str s =
     (let root = (if take 2 s = ''//'' \<and> take 3 s \<noteq> ''///'' then ''//''
                  else if take 1 s = ''/'' then ''/'' else []);
          parts = filter (\<lambda>p. p \<noteq> [] \<and> p \<noteq> ''.'') (split_slash s)
      in if root = [] \<and> parts = [] then ''.'' else root @ join_slash parts)"

section \<open>The group stage\<close>

text \<open>\<open>sort_file\<close>: read the lines, sort them, write them back over the file.\<close>

definition sort_file :: "string \<Rightarrow> string" where
  "sort_file raw = writelines (sort (readlines raw))"

subsection \<open>MD5 and the key hash\<close>

type_synonym word32 = "32 word"

definition md5_K :: "word32 list" where
  "md5_K =
    [0xd76aa478, 0xe8c7b756, 0x242070db, 0xc1bdceee,
     0xf57c0faf, 0x4787c62a, 0xa8304613, 0xfd469501,
     0x698098d8, 0x8b44f7af, 0xffff5bb1, 0x895cd7be,
     0x6b901122, 0xfd987193, 0xa679438e, 0x49b40821,
     0xf61e2562, 0xc040b340, 0x265e5a51, 0xe9b6c7aa,
     0xd62f105d, 0x02441453, 0xd8a1e681, 0xe7d3fbc8,
     0x21e1cde6, 0xc33707d6, 0xf4d50d87, 0x455a14ed,
     0xa9e3e905, 0xfcefa3f8, 0x676f02d9, 0x8d2a4c8a,
     0xfffa3942, 0x8771f681, 0x6d9d6122, 0xfde5380c,
     0xa4beea44, 0x4bdecfa9, 0xf6bb4b60, 0xbebfbc70,
     0x289b7ec6, 0xeaa127fa, 0xd4ef3085, 0x04881d05,
     0xd9d4d039, 0xe6db99e5, 0x1fa27cf8, 0xc4ac5665,
     0xf4292244, 0x432aff97, 0xab9423a7, 0xfc93a039,
     0x655b59c3, 0x8f0ccc92, 0xffeff47d, 0x85845dd1,
     0x6fa87e4f, 0xfe2ce6e0, 0xa3014314, 0x4e0811a1,
     0xf7537e82, 0xbd3af235, 0x2ad7d2bb, 0xeb86d391]"

definition md5_s :: "nat list" where
  "md5_s = [7, 12, 17, 22, 7, 12, 17, 22, 7, 12, 17, 22, 7, 12, 17, 22,
            5, 9, 14, 20, 5, 9, 14, 20, 5, 9, 14, 20, 5, 9, 14, 20,
            4, 11, 16, 23, 4, 11, 16, 23, 4, 11, 16, 23, 4, 11, 16, 23,
            6, 10, 15, 21, 6, 10, 15, 21, 6, 10, 15, 21, 6, 10, 15, 21]"

definition le_bytes :: "nat \<Rightarrow> nat \<Rightarrow> nat list" where
  "le_bytes k n = map (\<lambda>i. (n div 256 ^ i) mod 256) [0..<k]"

text \<open>
  Padding: a byte \<open>0x80\<close>, zeros up to 56 modulo 64, then the length of the message in
  bits as a 64-bit little-endian number.
\<close>

definition md5_pad :: "nat list \<Rightarrow> nat list" where
  "md5_pad bs = bs @ [128] @ replicate ((55 + 64 - length bs mod 64) mod 64) 0
                 @ le_bytes 8 ((8 * length bs) mod 18446744073709551616)"

definition le_word :: "nat list \<Rightarrow> word32" where
  "le_word bs = of_nat (foldr (\<lambda>b acc. b + 256 * acc) bs 0)"

fun chunk_words :: "nat \<Rightarrow> nat list \<Rightarrow> word32 list" where
  "chunk_words 0 bs = []"
| "chunk_words (Suc n) bs = le_word (take 4 bs) # chunk_words n (drop 4 bs)"

definition md5_round ::
  "word32 list \<Rightarrow> nat \<Rightarrow> word32 \<times> word32 \<times> word32 \<times> word32
     \<Rightarrow> word32 \<times> word32 \<times> word32 \<times> word32" where
  "md5_round M i st = (case st of (A, B, C, D) \<Rightarrow>
     let (F, g) =
        (if i < 16 then ((B AND C) OR (NOT B AND D), i)
         else if i < 32 then ((D AND B) OR (NOT D AND C), (5 * i + 1) mod 16)
         else if i < 48 then (B XOR C XOR D, (3 * i + 5) mod 16)
         else (C XOR (B OR NOT D), (7 * i) mod 16));
         F' = F + A + md5_K ! i + M ! g
     in (D, B + word_rotl (md5_s ! i) F', B, C))"

definition md5_chunk ::
  "word32 \<times> word32 \<times> word32 \<times> word32 \<Rightarrow> nat list
     \<Rightarrow> word32 \<times> word32 \<times> word32 \<times> word32" where
  "md5_chunk st bs = (case st of (a0, b0, c0, d0) \<Rightarrow>
     (case fold (md5_round (chunk_words 16 bs)) [0..<64] st of (A, B, C, D) \<Rightarrow>
        (a0 + A, b0 + B, c0 + C, d0 + D)))"

fun md5_chunks ::
  "nat \<Rightarrow> word32 \<times> word32 \<times> word32 \<times> word32 \<Rightarrow> nat list
     \<Rightarrow> word32 \<times> word32 \<times> word32 \<times> word32" where
  "md5_chunks 0 st bs = st"
| "md5_chunks (Suc n) st bs = md5_chunks n (md5_chunk st (take 64 bs)) (drop 64 bs)"

text \<open>The digest: the four state words, each as four little-endian bytes.\<close>

definition md5 :: "nat list \<Rightarrow> nat list" where
  "md5 bs = (let p = md5_pad bs in
     case md5_chunks (length p div 64) (0x67452301, 0xefcdab89, 0x98badcfe, 0x10325476) p of
       (a, b, c, d) \<Rightarrow> concat (map (\<lambda>w. le_bytes 4 (unat w)) [a, b, c, d]))"

text \<open>
  \<open>int(hashlib.md5(key.encode("utf-8")).hexdigest(), base=16)\<close>: the sixteen digest
  bytes read as one big-endian number.
\<close>

definition keyhash :: "string \<Rightarrow> nat" where
  "keyhash key = foldl (\<lambda>acc b. 256 * acc + b) 0 (md5 (map of_char key))"

subsection \<open>Merging and partitioning\<close>

text \<open>
  \<open>heapq.merge\<close> keeps one pending line per stream and always yields the least of them,
  the one of the earliest stream among equal lines. \<open>pop_least\<close> is one such step:
  the line yielded and the streams that remain.
\<close>

fun pop_least :: "'a::linorder list list \<Rightarrow> ('a \<times> 'a list list) option" where
  "pop_least [] = None"
| "pop_least ([] # xss) = pop_least xss"
| "pop_least ((x # xs) # xss) =
     (case pop_least xss of
        None \<Rightarrow> Some (x, [xs])
      | Some (y, yss) \<Rightarrow> if x \<le> y then Some (x, xs # xss) else Some (y, (x # xs) # yss))"

function heapq_merge :: "'a::linorder list list \<Rightarrow> 'a list" where
  "heapq_merge xss =
     (case pop_least xss of None \<Rightarrow> [] | Some (x, yss) \<Rightarrow> x # heapq_merge yss)"
  by pat_completeness auto
termination
proof (relation "measure (\<lambda>xss. length (concat xss))")
  show "wf (measure (\<lambda>xss::'a list list. length (concat xss)))"
    by simp
next
  fix xss :: "'a list list" and p x yss
  assume popped: "pop_least xss = Some p" and p: "(x, yss) = p"
  have "pop_least xss = Some (x, yss) \<Longrightarrow> length (concat yss) < length (concat xss)"
    by (induction xss arbitrary: x yss rule: pop_least.induct)
       (auto split: option.splits if_splits)
  with popped p show "(yss, xss) \<in> measure (\<lambda>xss. length (concat xss))"
    by simp
qed

declare heapq_merge.simps [simp del]

text \<open>\<open>line.partition('\t')[0]\<close>: the text before the first tab, or the whole line.\<close>

definition key_of :: "string \<Rightarrow> string" where
  "key_of line = takeWhile (\<lambda>c. c \<noteq> TAB) line"

definition reducer_idx :: "string \<Rightarrow> nat" where
  "reducer_idx line = keyhash (key_of line) mod MAX_NUM_REDUCE"

text \<open>\<open>outfiles[reducer_idx].write(line)\<close>, for every line of the merge in turn.\<close>

definition write_line :: "string \<Rightarrow> string list \<Rightarrow> string list" where
  "write_line line outfiles =
     outfiles[reducer_idx line := outfiles ! reducer_idx line @ line]"

definition allocate :: "string list \<Rightarrow> string list" where
  "allocate ls = fold write_line ls (replicate MAX_NUM_REDUCE [])"

text \<open>
  The group stage sorts every file of the input directory in place, opens (and so
  creates or empties) the \<open>MAX_NUM_REDUCE\<close> output files, merges the sorted input files
  and writes each line to the output file its key selects. It returns the number of
  output files. The result is the input directory, the output directory and that number.
\<close>

definition group_stage :: "directory \<Rightarrow> directory \<Rightarrow> directory \<times> directory \<times> nat" where
  "group_stage input_dir output_dir =
     (let sorted_dir = map (\<lambda>(name, raw). (name, sort_file raw)) input_dir;
          infiles = map (\<lambda>(name, raw). readlines raw) sorted_dir;
          outfiles = allocate (heapq_merge infiles);
          written = fold (\<lambda>i dir. AList.update (part_filename i) (outfiles ! i) dir)
                      [0..<MAX_NUM_REDUCE] output_dir
      in (sorted_dir, written, length outfiles))"

section \<open>Errors\<close>

text \<open>
  Modelled from the spec: the module \<open>exceptions\<close>, which declares \<open>MadoopError\<close>, is
  not among the sources. It is the program's own error type and carries a message.
  The other constructors are exceptions of Python itself; those of the operating system
  carry the path they are about.
\<close>

datatype error =
    MadoopError string
  | AssertionError string
  | ZeroDivisionError
  | FileNotFoundError string
  | NotADirectoryError string
  | IsADirectoryError string
  | UnicodeDecodeError

section \<open>The input preparer\<close>

text \<open>
  What a path given by the user denotes: nothing, a plain file, or a directory whose
  entries are plain files and subdirectories.
\<close>

datatype node = Regular string | Subdirectory

datatype location = Absent | PlainFile string | Dir "(string \<times> node) list"

text \<open>
  \<open>math.ceil(st_size / MAX_INPUT_SPLIT_SIZE)\<close>. The division of a size below \<open>2 ^ 53\<close> by
  \<open>2 ^ 20\<close> is exact in double precision, so the result is the ceiling of the quotient.
\<close>

definition num_splits :: "nat \<Rightarrow> nat" where
  "num_splits st_size =
     st_size div MAX_INPUT_SPLIT_SIZE + (if st_size mod MAX_INPUT_SPLIT_SIZE = 0 then 0 else 1)"

text \<open>
  \<open>for i, line in enumerate(file): out_files[i % num_split].write(line)\<close>; the modulo
  raises when \<open>num_split\<close> is zero.
\<close>

fun distribute :: "nat \<Rightarrow> nat \<Rightarrow> string list \<Rightarrow> string list \<Rightarrow> error + string list" where
  "distribute num_split i [] out_files = Inr out_files"
| "distribute num_split i (line # rest) out_files =
     (if num_split = 0 then Inl ZeroDivisionError
      else distribute num_split (Suc i) rest
             (out_files[i mod num_split := out_files ! (i mod num_split) @ line]))"

text \<open>
  The body of the loop over the input files: the state is the directory written so far
  and \<open>part_num\<close>. The size of a file is the number of its bytes.
\<close>

definition split_file :: "string \<Rightarrow> directory \<times> nat \<Rightarrow> error + directory \<times> nat" where
  "split_file raw st = (case st of (output_dir, part_num) \<Rightarrow>
     (let num_split = num_splits (length raw);
          out_filenames = map (\<lambda>i. part_filename (part_num + i)) [0..<num_split]
      in case distribute num_split 0 (readlines raw) (replicate num_split []) of
           Inl e \<Rightarrow> Inl e
         | Inr out_files \<Rightarrow>
             Inr (fold (\<lambda>(name, text) dir. AList.update name text dir)
                    (zip out_filenames out_files) output_dir,
                  part_num + num_split)))"

fun split_files :: "string list \<Rightarrow> directory \<times> nat \<Rightarrow> error + directory \<times> nat" where
  "split_files [] st = Inr st"
| "split_files (raw # raws) st =
     (case split_file raw st of Inl e \<Rightarrow> Inl e | Inr st' \<Rightarrow> split_files raws st')"

text \<open>The entries of the input directory that are not directories, in listing order.\<close>

definition regular_files :: "(string \<times> node) list \<Rightarrow> string list" where
  "regular_files entries =
     concat (map (\<lambda>(name, nd). case nd of Regular raw \<Rightarrow> [raw] | Subdirectory \<Rightarrow> []) entries)"

text \<open>
  The function is given the input directory as a \<open>pathlib.Path\<close>: \<open>input_path\<close> is that
  path as \<open>pathlib\<close> prints it, \<open>input_dir\<close> is what it denotes when the assertion runs.
\<close>

definition prepare_input_files :: "string \<Rightarrow> location \<Rightarrow> directory \<Rightarrow> error + directory \<times> nat" where
  "prepare_input_files input_path input_dir output_dir =
     (case input_dir of
        Dir entries \<Rightarrow> split_files (regular_files entries) (output_dir, 0)
      | _ \<Rightarrow> Inl (AssertionError
                 (''Can'' @ [CHR 0x27] @ ''t find input_dir '' @ [CHR 0x27] @ input_path
                  @ [CHR 0x27])))"

section \<open>Executables and the shebang check\<close>

text \<open>
  A user program: the path the user gave for it, that path made absolute
  (\<open>str(pathlib.Path(exe).resolve())\<close>), what opening its file as UTF-8 text and reading
  its beginning gives (the text, or the error that the operating system or the decoder
  raises), and what one run of it does, from the text on its standard input to its exit
  status and the text on its standard output.
\<close>

record executable =
  exe_path :: string
  exe_resolved :: string
  exe_file :: "error + string"
  exe_run :: "string \<Rightarrow> int \<times> string"

text \<open>
  \<open>str.rstrip()\<close> removes the trailing white space: the ASCII control and space
  characters below and the Unicode spaces, which are two or three bytes in UTF-8.
  \<open>strip_reversed\<close> works on the reversed text.
\<close>

definition ascii_space :: "char \<Rightarrow> bool" where
  "ascii_space c = (of_char c \<in> {9, 10, 11, 12, 13, 28, 29, 30, 31, 32 :: nat})"

definition space2 :: "char \<Rightarrow> char \<Rightarrow> bool" where
  "space2 a b = (b = CHR 0xC2 \<and> (a = CHR 0x85 \<or> a = CHR 0xA0))"

definition space3 :: "char \<Rightarrow> char \<Rightarrow> char \<Rightarrow> bool" where
  "space3 a b c =
     ((c = CHR 0xE1 \<and> b = CHR 0x9A \<and> a = CHR 0x80) \<or>
      (c = CHR 0xE2 \<and> b = CHR 0x80 \<and>
         ((128 \<le> (of_char a :: nat) \<and> (of_char a :: nat) \<le> 138) \<or>
          a = CHR 0xA8 \<or> a = CHR 0xA9 \<or> a = CHR 0xAF)) \<or>
      (c = CHR 0xE2 \<and> b = CHR 0x81 \<and> a = CHR 0x9F) \<or>
      (c = CHR 0xE3 \<and> b = CHR 0x80 \<and> a = CHR 0x80))"

fun strip_reversed :: "string \<Rightarrow> string" where
  "strip_reversed (a # b # c # r) =
     (if ascii_space a then strip_reversed (b # c # r)
      else if space2 a b then strip_reversed (c # r)
      else if space3 a b c then strip_reversed r
      else a # b # c # r)"
| "strip_reversed [a, b] =
     (if ascii_space a then strip_reversed [b]
      else if space2 a b then []
      else [a, b])"
| "strip_reversed [a] = (if ascii_space a then [] else [a])"
| "strip_reversed [] = []"

definition rstrip :: "string \<Rightarrow> string" where
  "rstrip s = rev (strip_reversed (rev s))"

definition SHEBANG :: string where
  "SHEBANG = ''#!/usr/bin/env python3''"

text \<open>
  \<open>check_shebang\<close>: the errors of opening and decoding the file go through; otherwise
  the first line, stripped, is compared with the directive.
\<close>

definition check_shebang :: "executable \<Rightarrow> error + unit" where
  "check_shebang exe =
     (case exe_file exe of
        Inl e \<Rightarrow> Inl e
      | Inr content \<Rightarrow>
          (let line = rstrip (readline content)
           in if line \<noteq> SHEBANG
              then Inl (MadoopError
                     (pathlib_str (exe_path exe) @ '': invalid shebang on first line ''
                      @ [CHR 0x27] @ line @ [CHR 0x27] @ ''.  Expected '' @ [CHR 0x27]
                      @ SHEBANG @ [CHR 0x27]))
              else Inr ()))"

section \<open>The map and reduce stages\<close>

text \<open>
  A subprocess that was started: the program, its input file and its output file.
  \<open>run_tasks\<close> is the loop that \<open>map_stage\<close> and \<open>reduce_stage\<close> share: for every
  ordinal it opens the input file, creates the output file, runs the program between
  them, and raises \<open>MadoopError\<close> when the exit status is not zero. A stage is given its
  two directories as paths; here each is the path as printed and the files it holds.
\<close>

type_synonym task = "string \<times> string \<times> string"

fun run_tasks ::
  "executable \<Rightarrow> string \<Rightarrow> directory \<Rightarrow> string \<Rightarrow> nat list \<Rightarrow> directory \<times> task list
     \<Rightarrow> error option \<times> directory \<times> task list" where
  "run_tasks exe in_name input_dir out_name [] st = (None, st)"
| "run_tasks exe in_name input_dir out_name (i # rest) st = (case st of (output_dir, procs) \<Rightarrow>
     (let input_path = in_name @ ''/'' @ part_filename i;
          output_path = out_name @ ''/'' @ part_filename i
      in case map_of input_dir (part_filename i) of
           None \<Rightarrow> (Some (FileNotFoundError input_path), output_dir, procs)
         | Some stdin \<Rightarrow>
             (case exe_run exe stdin of (returncode, stdout) \<Rightarrow>
                (let written = AList.update (part_filename i) stdout output_dir;
                     started = procs @ [(exe_resolved exe, input_path, output_path)]
                 in if returncode \<noteq> 0
                    then (Some (MadoopError
                            (''Command returned non-zero: '' @ exe_resolved exe @ '' < ''
                             @ input_path @ '' > '' @ output_path)),
                          written, started)
                    else run_tasks exe in_name input_dir out_name rest (written, started)))))"

definition map_stage ::
  "executable \<Rightarrow> string \<Rightarrow> directory \<Rightarrow> string \<Rightarrow> directory \<Rightarrow> nat \<Rightarrow> task list
     \<Rightarrow> error option \<times> directory \<times> task list" where
  "map_stage exe in_name input_dir out_name output_dir num_map procs =
     run_tasks exe in_name input_dir out_name [0..<num_map] (output_dir, procs)"

definition reduce_stage ::
  "executable \<Rightarrow> string \<Rightarrow> directory \<Rightarrow> string \<Rightarrow> directory \<Rightarrow> nat \<Rightarrow> task list
     \<Rightarrow> error option \<times> directory \<times> task list" where
  "reduce_stage exe in_name input_dir out_name output_dir num_reduce procs =
     run_tasks exe in_name input_dir out_name [0..<num_reduce] (output_dir, procs)"

section \<open>The orchestrator\<close>

text \<open>
  A run and the part of the world it reads and changes. A place is what a path names
  once it is resolved, so two paths can name one place. The world says which places the
  input path, the output path and the parent directory of the output path name, what
  every place holds, the last component of the output path, the path of the temporary
  directory that \<open>tempfile\<close> creates, and the subprocesses started so far. The temporary
  directory lives inside the run and is gone when the run ends, with or without an
  error. Symbolic links and permissions are outside the model.
\<close>

type_synonym place = nat

record world =
  input_arg :: string
  input_place :: place
  output_arg :: string
  output_place :: place
  output_parent :: place
  output_name :: string
  tmpdir :: string
  fs :: "place \<Rightarrow> location"
  procs :: "task list"

text \<open>
  \<open>output_dir.mkdir()\<close>: the parent must be a directory; it gains the new entry, and the
  new directory is empty.
\<close>

definition mkdir :: "world \<Rightarrow> error + world" where
  "mkdir w =
     (case fs w (output_parent w) of
        Absent \<Rightarrow> Inl (FileNotFoundError (pathlib_str (output_arg w)))
      | PlainFile content \<Rightarrow> Inl (NotADirectoryError (pathlib_str (output_arg w)))
      | Dir entries \<Rightarrow>
          Inr (w\<lparr>fs := (fs w)
                 (output_parent w := Dir (AList.update (output_name w) Subdirectory entries),
                  output_place w := Dir [])\<rparr>))"

definition entries_of :: "location \<Rightarrow> (string \<times> node) list" where
  "entries_of l = (case l of Dir entries \<Rightarrow> entries | _ \<Rightarrow> [])"

text \<open>\<open>shutil.copy\<close> of every file of the reducer output directory.\<close>

definition copy_all :: "directory \<Rightarrow> (string \<times> node) list \<Rightarrow> (string \<times> node) list" where
  "copy_all files entries =
     fold (\<lambda>(name, text) dir. AList.update name (Regular text) dir) files entries"

text \<open>
  The run. The input location is looked at by \<open>prepare_input_files\<close>, after the output
  directory has been created.
\<close>

definition mapreduce :: "world \<Rightarrow> executable \<Rightarrow> executable \<Rightarrow> error option \<times> world" where
  "mapreduce w map_exe reduce_exe =
     (if fs w (output_place w) \<noteq> Absent
      then (Some (MadoopError
              (''Output directory already exists: '' @ pathlib_str (output_arg w))), w)
      else
        (case mkdir w of Inl e \<Rightarrow> (Some e, w) | Inr w1 \<Rightarrow>
         (case check_shebang map_exe of Inl e \<Rightarrow> (Some e, w1) | Inr u1 \<Rightarrow>
         (case check_shebang reduce_exe of Inl e \<Rightarrow> (Some e, w1) | Inr u2 \<Rightarrow>
         (case prepare_input_files (pathlib_str (input_arg w)) (fs w1 (input_place w)) [] of
            Inl e \<Rightarrow> (Some e, w1)
          | Inr (map_input_dir, num_map) \<Rightarrow>
         (case map_stage map_exe (tmpdir w @ ''/input'') map_input_dir
                 (tmpdir w @ ''/mapper-output'') [] num_map (procs w1) of
            (Some e, map_output_dir, ps) \<Rightarrow> (Some e, w1\<lparr>procs := ps\<rparr>)
          | (None, map_output_dir, ps) \<Rightarrow>
         (case group_stage map_output_dir [] of (sorted_dir, group_output_dir, num_reduce) \<Rightarrow>
         (case reduce_stage reduce_exe (tmpdir w @ ''/grouper-output'') group_output_dir
                 (tmpdir w @ ''/reducer-output'') [] num_reduce ps of
            (Some e, reduce_output_dir, ps') \<Rightarrow> (Some e, w1\<lparr>procs := ps'\<rparr>)
          | (None, reduce_output_dir, ps') \<Rightarrow>
              (None, w1\<lparr>fs := (fs w1)
                          (output_place w := Dir (copy_all reduce_output_dir
                             (entries_of (fs w1 (output_place w))))),
                         procs := ps'\<rparr>)))))))))"

section \<open>Notions used in the statements\<close>

text \<open>Every line of the file ends with a newline (an empty file has no line).\<close>

definition newline_terminated :: "string \<Rightarrow> bool" where
  "newline_terminated raw = list_all (\<lambda>l. last l = LF) (readlines raw)"

text \<open>The records of the mapper-output files: their lines, file after file.\<close>

definition mapper_records :: "directory \<Rightarrow> string list" where
  "mapper_records input_dir = concat (map (\<lambda>(name, raw). readlines raw) input_dir)"

text \<open>The stream that the group stage partitions: the merge of the sorted files, re-read.\<close>

definition merged_lines :: "directory \<Rightarrow> string list" where
  "merged_lines input_dir =
     heapq_merge (map (\<lambda>(name, raw). readlines (sort_file raw)) input_dir)"

text \<open>
  The records of the reducer-input file with ordinal \<open>i\<close> in a directory, none when the
  file is missing.
\<close>

definition reducer_input :: "directory \<Rightarrow> nat \<Rightarrow> string list" where
  "reducer_input dir i =
     (case map_of dir (part_filename i) of None \<Rightarrow> [] | Some content \<Rightarrow> readlines content)"

text \<open>A line as reading yields it, with its newline: one newline, at the end, and no \<open>\r\<close>.\<close>

definition whole_line :: "string \<Rightarrow> bool" where
  "whole_line l = (l \<noteq> [] \<and> last l = LF \<and> LF \<notin> set (butlast l) \<and> CR \<notin> set l)"

text \<open>
  The lines that share a key are contiguous: once the run of lines with the key of the
  first line ends, no later line has that key; and so on for the rest.
\<close>

fun grouped_by_key :: "string list \<Rightarrow> bool" where
  "grouped_by_key [] = True"
| "grouped_by_key (l # ls) =
     (list_all (\<lambda>m. key_of m \<noteq> key_of l) (dropWhile (\<lambda>m. key_of m = key_of l) ls)
      \<and> grouped_by_key ls)"

text \<open>
  The lines whose zero-based index is \<open>j\<close> modulo \<open>num_split\<close>, in their order, one after
  the other.
\<close>

definition round_robin :: "nat \<Rightarrow> string list \<Rightarrow> nat \<Rightarrow> string" where
  "round_robin num_split ls j =
     concat (map (\<lambda>k. ls ! k) (filter (\<lambda>k. k mod num_split = j) [0..<length ls]))"

text \<open>The number of partitions that a list of files gets.\<close>

definition total_splits :: "string list \<Rightarrow> nat" where
  "total_splits raws = (\<Sum>raw\<leftarrow>raws. num_splits (length raw))"

text \<open>The number that a string of decimal digits denotes.\<close>

definition digit_value :: "string \<Rightarrow> nat" where
  "digit_value s = foldl (\<lambda>a c. 10 * a + (of_char c - 48)) 0 s"

text \<open>The first line of a text, without its newline.\<close>

definition first_line :: "string \<Rightarrow> string" where
  "first_line content = takeWhile (\<lambda>c. c \<noteq> LF) (universal_newlines content)"

text \<open>
  The message of the error that \<open>check_shebang\<close> raises for an executable whose file
  reads as \<open>content\<close>.
\<close>

definition shebang_message :: "executable \<Rightarrow> string \<Rightarrow> string" where
  "shebang_message exe content =
     pathlib_str (exe_path exe) @ '': invalid shebang on first line '' @ [CHR 0x27]
     @ rstrip (first_line content) @ [CHR 0x27]
     @ ''.  Expected '' @ [CHR 0x27] @ ''#!/usr/bin/env python3'' @ [CHR 0x27]"

text \<open>The world after \<open>mkdir\<close> has created the output directory in a parent with \<open>entries\<close>.\<close>

definition output_created :: "world \<Rightarrow> (string \<times> node) list \<Rightarrow> world" where
  "output_created w entries =
     w\<lparr>fs := (fs w)
          (output_parent w := Dir (AList.update (output_name w) Subdirectory entries),
           output_place w := Dir [])\<rparr>"

section \<open>Example inputs\<close>

text \<open>Two mapper-output files with newline-terminated records.\<close>

definition two_mappers :: directory where
  "two_mappers =
     [(''part-00000'', ''b'' @ [TAB] @ ''1'' @ [LF] @ ''a'' @ [TAB] @ ''1'' @ [LF]),
      (''part-00001'', ''a'' @ [TAB] @ ''0'' @ [LF])]"

text \<open>Mapper-output files whose last line has no newline.\<close>

definition unterminated_mapper :: directory where
  "unterminated_mapper =
     [(''part-00000'',
       ''k'' @ [TAB] @ ''2'' @ [LF] @ ''k'' @ [TAB] @ ''2'' @ [LF] @ ''k'' @ [TAB] @ ''2'')]"

definition fused_mapper :: directory where
  "fused_mapper = [(''part-00000'', ''b'' @ [LF] @ ''a'')]"

definition split_mapper :: directory where
  "split_mapper = [(''part-00000'', ''b'' @ [TAB] @ ''1'' @ [LF] @ ''a'' @ [TAB] @ ''1'')]"

definition tied_mappers :: directory where
  "tied_mappers =
     [(''part-00000'',
       ''k'' @ [TAB] @ ''2'' @ [LF] @ ''k'' @ [TAB] @ ''2'' @ [LF] @ ''k'' @ [TAB] @ ''2''),
      (''part-00001'',
       ''k'' @ [TAB] @ ''3'' @ [LF] @ ''k'' @ [TAB] @ ''2'' @ [LF] @ ''k'' @ [TAB] @ ''2'')]"

text \<open>An input file one byte over the split threshold, next to a subdirectory and a small file.\<close>

definition big_file :: string where
  "big_file = replicate (MAX_INPUT_SPLIT_SIZE + 1) LF"

definition mixed_input :: "(string \<times> node) list" where
  "mixed_input =
     [(''big.txt'', Regular big_file), (''sub'', Subdirectory),
      (''b.txt'', Regular (''b'' @ [LF]))]"

text \<open>
  Executables that copy their input and exit with status zero; they differ in their first
  line.
\<close>

definition cat_exe :: executable where
  "cat_exe = \<lparr>exe_path = ''./cat.py'', exe_resolved = ''/home/user/cat.py'',
              exe_file = Inr (''#!/usr/bin/env python3'' @ [LF] @ ''import sys'' @ [LF]),
              exe_run = (\<lambda>stdin. (0, stdin))\<rparr>"

definition bash_exe :: executable where
  "bash_exe = \<lparr>exe_path = ''./map.sh'', exe_resolved = ''/home/user/map.sh'',
               exe_file = Inr (''#!/bin/bash'' @ [LF] @ ''cat'' @ [LF]),
               exe_run = (\<lambda>stdin. (0, stdin))\<rparr>"

definition spaced_exe :: executable where
  "spaced_exe = \<lparr>exe_path = ''spaced.py'', exe_resolved = ''/home/user/spaced.py'',
                 exe_file = Inr (''#!/usr/bin/env python3 '' @ [LF] @ ''import sys'' @ [LF]),
                 exe_run = (\<lambda>stdin. (0, stdin))\<rparr>"

text \<open>
  Worlds with no output directory yet. Place 0 is the working directory, place 1 is
  named by the input path and place 2 by the output path. The input directory is empty
  in the first world, missing in the second and holds one file in the third. In the
  fourth world the input path and the output path name the same place, where nothing is.
\<close>

definition fresh_world :: world where
  "fresh_world =
     \<lparr>input_arg = ''input/'', input_place = 1, output_arg = ''output'', output_place = 2,
      output_parent = 0, output_name = ''output'', tmpdir = ''/tmp/madoop-x'',
      fs = (\<lambda>p. if p = 0 then Dir [(''input'', Subdirectory)]
                 else if p = 1 then Dir [] else Absent),
      procs = []\<rparr>"


definition words_world :: world where
  "words_world =
     \<lparr>input_arg = ''input/'', input_place = 1, output_arg = ''output'', output_place = 2,
      output_parent = 0, output_name = ''output'', tmpdir = ''/tmp/madoop-x'',
      fs = (\<lambda>p. if p = 0 then Dir [(''input'', Subdirectory)]
                 else if p = 1 then Dir [(''words.txt'',
                   Regular (''b'' @ [TAB] @ ''1'' @ [LF] @ ''a'' @ [TAB] @ ''1'' @ [LF]))]
                 else Absent),
      procs = []\<rparr>"

definition same_place_world :: world where
  "same_place_world =
     \<lparr>input_arg = ''x'', input_place = 1, output_arg = ''x'', output_place = 1,
      output_parent = 0, output_name = ''x'', tmpdir = ''/tmp/madoop-x'',
      fs = (\<lambda>p. if p = 0 then Dir [] else Absent),
      procs = []\<rparr>"

section \<open>Facts about lines\<close>

lemma universal_newlines_no_CR: "CR \<notin> set (universal_newlines s)"
  by (induction s rule: universal_newlines.induct) auto

lemma universal_newlines_id: "CR \<notin> set s \<Longrightarrow> universal_newlines s = s"
  by (induction s rule: universal_newlines.induct) auto

lemma concat_split_lines: "concat (split_lines s) = s"
  by (induction s) (auto split: list.splits)

lemma split_lines_shape:
  "l \<in> set (split_lines s) \<Longrightarrow> l \<noteq> [] \<and> LF \<notin> set (butlast l)"
  by (induction s arbitrary: l) (auto split: list.splits if_splits)

lemma split_lines_append:
  "l \<noteq> [] \<Longrightarrow> last l = LF \<Longrightarrow> LF \<notin> set (butlast l) \<Longrightarrow>
     split_lines (l @ rest) = l # split_lines rest"
  by (induction l) (auto split: list.splits if_splits)

lemma split_lines_concat:
  "\<forall>l \<in> set ls. l \<noteq> [] \<and> last l = LF \<and> LF \<notin> set (butlast l) \<Longrightarrow>
     split_lines (concat ls) = ls"
  by (induction ls) (auto simp: split_lines_append)

lemma readlines_whole:
  assumes "newline_terminated raw" and "l \<in> set (readlines raw)"
  shows "whole_line l"
proof -
  have "set (concat (split_lines (universal_newlines raw))) = set (universal_newlines raw)"
    by (simp only: concat_split_lines)
  with assms(2) have "set l \<subseteq> set (universal_newlines raw)"
    by (auto simp: readlines_def)
  then have "CR \<notin> set l"
    using universal_newlines_no_CR by blast
  moreover have "last l = LF"
    using assms by (auto simp: newline_terminated_def list_all_iff)
  ultimately show ?thesis
    using assms(2) split_lines_shape by (auto simp: whole_line_def readlines_def)
qed

lemma readlines_concat:
  assumes "\<forall>l \<in> set ls. whole_line l"
  shows "readlines (concat ls) = ls"
proof -
  have "CR \<notin> set (concat ls)"
    using assms by (auto simp: whole_line_def)
  then have "universal_newlines (concat ls) = concat ls"
    by (rule universal_newlines_id)
  moreover have "split_lines (concat ls) = ls"
    using assms by (intro split_lines_concat) (auto simp: whole_line_def)
  ultimately show ?thesis by (simp add: readlines_def)
qed

lemma readlines_sort_file:
  assumes "newline_terminated raw"
  shows "readlines (sort_file raw) = sort (readlines raw)"
  using assms readlines_whole [OF assms]
  by (simp add: sort_file_def writelines_def readlines_concat)

lemma head_split_lines:
  "(case split_lines u of [] \<Rightarrow> [] | l # ls \<Rightarrow> l) =
     takeWhile (\<lambda>c. c \<noteq> LF) u @ (if LF \<in> set u then [LF] else [])"
  by (induction u) (auto split: list.splits)

lemma readline_first_line:
  "readline content = first_line content \<or> readline content = first_line content @ [LF]"
  by (simp add: readline_def readlines_def first_line_def head_split_lines)

section \<open>Facts about the merge\<close>

lemma pop_least_None: "pop_least xss = None \<longleftrightarrow> concat xss = []"
  by (induction xss rule: pop_least.induct) (auto split: option.splits)

lemma pop_least_mset:
  "pop_least xss = Some (x, yss) \<Longrightarrow> mset (concat xss) = add_mset x (mset (concat yss))"
  by (induction xss arbitrary: x yss rule: pop_least.induct)
     (auto simp: pop_least_None split: option.splits if_splits)

lemma mset_heapq_merge: "mset (heapq_merge xss) = mset (concat xss)"
proof (induction xss rule: heapq_merge.induct)
  case (1 xss)
  show ?case
  proof (cases "pop_least xss")
    case None
    moreover from None have "concat xss = []"
      by (simp add: pop_least_None)
    ultimately show ?thesis
      by (simp add: heapq_merge.simps [of xss])
  next
    case (Some p)
    obtain x yss where p: "p = (x, yss)" by (cases p)
    with Some 1 show ?thesis
      by (simp add: heapq_merge.simps [of xss] pop_least_mset)
  qed
qed

lemma pop_least_sorted:
  "pop_least xss = Some (x, yss) \<Longrightarrow> \<forall>xs \<in> set xss. sorted xs \<Longrightarrow>
     (\<forall>y \<in> set (concat xss). x \<le> y) \<and> (\<forall>ys \<in> set yss. sorted ys)"
proof (induction xss arbitrary: x yss rule: pop_least.induct)
  case 1
  then show ?case by simp
next
  case (2 xss)
  then show ?case by simp
next
  case (3 a xs xss)
  show ?case
  proof (cases "pop_least xss")
    case None
    with 3 show ?thesis by (auto simp: pop_least_None)
  next
    case (Some p)
    obtain y zss where p: "p = (y, zss)" by (cases p)
    have ih: "(\<forall>z \<in> set (concat xss). y \<le> z) \<and> (\<forall>ys \<in> set zss. sorted ys)"
      using 3 Some p by auto
    show ?thesis
    proof (cases "a \<le> y")
      case True
      with 3 Some p ih show ?thesis by (auto simp: order_trans)
    next
      case False
      with 3 Some p ih show ?thesis by fastforce
    qed
  qed
qed

lemma sorted_heapq_merge: "\<forall>xs \<in> set xss. sorted xs \<Longrightarrow> sorted (heapq_merge xss)"
proof (induction xss rule: heapq_merge.induct)
  case (1 xss)
  show ?case
  proof (cases "pop_least xss")
    case None
    then show ?thesis by (simp add: heapq_merge.simps [of xss])
  next
    case (Some p)
    obtain x yss where p: "p = (x, yss)" by (cases p)
    from pop_least_sorted [OF Some [unfolded p] 1(2)]
    have le: "\<forall>y \<in> set (concat xss). x \<le> y" and srt: "\<forall>ys \<in> set yss. sorted ys"
      by blast+
    have "set (heapq_merge yss) \<subseteq> set (concat xss)"
      using mset_heapq_merge [of yss] pop_least_mset [OF Some [unfolded p]]
      by (metis mset_eq_setD set_mset_add_mset_insert set_mset_mset subset_insertI)
    moreover have "sorted (heapq_merge yss)"
      using 1(1) Some p srt by simp
    ultimately show ?thesis
      using Some p le by (auto simp: heapq_merge.simps [of xss])
  qed
qed

lemma sorted_same_mset:
  fixes xs ys :: "'a::linorder list"
  assumes "sorted xs" and "sorted ys" and "mset xs = mset ys"
  shows "xs = ys"
  using assms by (metis properties_for_sort)

section \<open>Facts about file names\<close>

lemma digit_value_decimal: "digit_value (decimal n) = n"
proof (induction n rule: decimal.induct)
  case (1 n)
  show ?case
  proof (cases "n < 10")
    case True
    then show ?thesis
      by (simp add: decimal.simps [of n] digit_value_def digit_char_def)
  next
    case False
    have "n mod 10 < 10" by simp
    then have "(48 + n mod 10) mod 256 = 48 + n mod 10" by simp
    with False 1 show ?thesis
      by (simp add: decimal.simps [of n] digit_value_def digit_char_def)
  qed
qed

lemma digit_value_zeros: "digit_value (replicate k CHR ''0'' @ s) = digit_value s"
proof -
  have "foldl (\<lambda>a c. 10 * a + (of_char c - 48)) (0::nat) (replicate k CHR ''0'') = 0"
    by (induction k) simp_all
  then show ?thesis by (simp add: digit_value_def)
qed

lemma part_filename_value: "digit_value (drop 5 (part_filename n)) = n"
  by (simp add: part_filename_def digit_value_zeros digit_value_decimal)

lemma part_filename_inj: "part_filename m = part_filename n \<longleftrightarrow> m = n"
  by (metis part_filename_value)

lemma part_filenames_4:
  "part_filename 0 = ''part-00000''" "part_filename (Suc 0) = ''part-00001''"
  "part_filename 2 = ''part-00002''" "part_filename 3 = ''part-00003''"
  by code_simp+

lemma part_filename_1: "part_filename 1 = ''part-00001''"
  by code_simp

lemma part_filename_3: "part_filename 3 = ''part-00003''"
  by code_simp

lemma upt_4: "[0..<MAX_NUM_REDUCE] = [0, 1, 2, 3]"
  by code_simp

lemma map_of_fold_update:
  "map_of (fold (\<lambda>i dir. AList.update (part_filename i) (g i) dir) ns dir0) name =
     (if \<exists>i \<in> set ns. part_filename i = name
      then Some (g (digit_value (drop 5 name))) else map_of dir0 name)"
proof (induction ns arbitrary: dir0)
  case Nil
  then show ?case by simp
next
  case (Cons n ns)
  show ?case
    using part_filename_value [of n]
    by (auto simp: Cons.IH update_conv' part_filename_value)
qed

lemma names_fold_update:
  "fst ` set (fold (\<lambda>i dir. AList.update (part_filename i) (g i) dir) ns dir0) =
     fst ` set dir0 \<union> part_filename ` set ns"
  by (induction ns arbitrary: dir0) (auto simp: dom_update)

section \<open>The key hash on three keys\<close>

lemma keyhash_a: "keyhash ''a'' = 0x0cc175b9c0f1b6a831c399e269772661"
  by code_simp

lemma keyhash_b: "keyhash ''b'' = 0x92eb5ffee6ae2fec3ad71c777531578f"
  by code_simp

lemma keyhash_k: "keyhash ''k'' = 0x8ce4b16b22b58894aa86c421e8759df3"
  by code_simp

section \<open>Properties of the group stage\<close>

lemma reducer_idx_less: "reducer_idx l < MAX_NUM_REDUCE"
  by (simp add: reducer_idx_def MAX_NUM_REDUCE_def)

lemma reducer_idx_of_key:
  "key_of l = K \<Longrightarrow> reducer_idx l = keyhash K mod MAX_NUM_REDUCE"
  by (simp add: reducer_idx_def)

lemma fold_write_line:
  "length outs = MAX_NUM_REDUCE \<Longrightarrow>
     length (fold write_line ls outs) = MAX_NUM_REDUCE \<and>
     (\<forall>i < MAX_NUM_REDUCE.
        fold write_line ls outs ! i = outs ! i @ concat (filter (\<lambda>l. reducer_idx l = i) ls))"
proof (induction ls arbitrary: outs)
  case Nil
  then show ?case by simp
next
  case (Cons l ls)
  have len: "length (write_line l outs) = MAX_NUM_REDUCE"
    using Cons.prems by (simp add: write_line_def)
  have step: "\<forall>i < MAX_NUM_REDUCE.
      write_line l outs ! i = (if reducer_idx l = i then outs ! i @ l else outs ! i)"
    using Cons.prems by (simp add: write_line_def nth_list_update)
  from Cons.IH [OF len] step show ?case by auto
qed

lemma length_allocate: "length (allocate ls) = MAX_NUM_REDUCE"
  using fold_write_line [of "replicate MAX_NUM_REDUCE []" ls] by (simp add: allocate_def)

lemma allocate_nth:
  "i < MAX_NUM_REDUCE \<Longrightarrow> allocate ls ! i = concat (filter (\<lambda>l. reducer_idx l = i) ls)"
  using fold_write_line [of "replicate MAX_NUM_REDUCE []" ls] by (simp add: allocate_def)

lemma group_stage_eq:
  "group_stage input_dir output_dir =
     (map (\<lambda>(name, raw). (name, sort_file raw)) input_dir,
      fold (\<lambda>i dir. AList.update (part_filename i) (allocate (merged_lines input_dir) ! i) dir)
        [0..<MAX_NUM_REDUCE] output_dir,
      MAX_NUM_REDUCE)"
proof -
  have eq: "map (\<lambda>(name, raw). readlines raw)
        (map (\<lambda>(name, raw). (name, sort_file raw)) input_dir)
      = map (\<lambda>(name, raw). readlines (sort_file raw)) input_dir"
    by (induction input_dir) auto
  show ?thesis
    unfolding group_stage_def Let_def merged_lines_def eq length_allocate
    by (rule refl)
qed

lemma group_stage_written:
  "i < MAX_NUM_REDUCE \<Longrightarrow>
     map_of (fst (snd (group_stage input_dir output_dir))) (part_filename i) =
       Some (concat (filter (\<lambda>l. reducer_idx l = i) (merged_lines input_dir)))"
proof -
  assume i: "i < MAX_NUM_REDUCE"
  then have "\<exists>j \<in> set [0..<MAX_NUM_REDUCE]. part_filename j = part_filename i"
    by auto
  with i show ?thesis
    by (simp add: group_stage_eq map_of_fold_update part_filename_value allocate_nth)
qed

lemma merged_lines_terminated:
  assumes "list_all newline_terminated (map snd input_dir)"
  shows "merged_lines input_dir =
      heapq_merge (map (\<lambda>(name, raw). sort (readlines raw)) input_dir)"
proof -
  have "map (\<lambda>(name, raw). readlines (sort_file raw)) input_dir
      = map (\<lambda>(name, raw). sort (readlines raw)) input_dir"
    using assms by (induction input_dir) (auto simp: readlines_sort_file)
  then show ?thesis by (simp only: merged_lines_def)
qed

lemma mset_merged_lines:
  assumes "list_all newline_terminated (map snd input_dir)"
  shows "mset (merged_lines input_dir) = mset (mapper_records input_dir)"
proof -
  have "mset (concat (map (\<lambda>(name, raw). sort (readlines raw)) input_dir))
      = mset (concat (map (\<lambda>(name, raw). readlines raw) input_dir))"
    by (induction input_dir) auto
  then show ?thesis
    by (simp add: merged_lines_terminated [OF assms] mset_heapq_merge mapper_records_def)
qed

lemma sorted_merged_lines:
  assumes "list_all newline_terminated (map snd input_dir)"
  shows "sorted (merged_lines input_dir)"
  unfolding merged_lines_terminated [OF assms]
  by (rule sorted_heapq_merge) auto

lemma whole_mapper_records:
  assumes "list_all newline_terminated (map snd input_dir)"
    and "l \<in> set (mapper_records input_dir)"
  shows "whole_line l"
  using assms by (auto simp: mapper_records_def list_all_iff intro: readlines_whole)

lemma whole_merged_lines:
  assumes "list_all newline_terminated (map snd input_dir)"
    and "l \<in> set (merged_lines input_dir)"
  shows "whole_line l"
proof -
  have "set (merged_lines input_dir) = set (mapper_records input_dir)"
    using mset_merged_lines [OF assms(1)] by (rule mset_eq_setD)
  with assms show ?thesis by (simp add: whole_mapper_records)
qed

lemma mset_mapper_records:
  "mset input_dir' = mset input_dir \<Longrightarrow>
     mset (mapper_records input_dir') = mset (mapper_records input_dir)"
proof -
  assume perm: "mset input_dir' = mset input_dir"
  have "mset (mapper_records d) =
      sum_mset (image_mset (\<lambda>(name, raw). mset (readlines raw)) (mset d))" for d :: directory
    by (induction d) (auto simp: mapper_records_def)
  with perm show ?thesis by simp
qed

lemma reducer_lines:
  assumes "list_all newline_terminated (map snd input_dir)" and "i < MAX_NUM_REDUCE"
  shows "\<exists>text. map_of (fst (snd (group_stage input_dir output_dir))) (part_filename i)
            = Some text
          \<and> readlines text = filter (\<lambda>l. reducer_idx l = i) (merged_lines input_dir)"
proof -
  have "readlines (concat (filter (\<lambda>l. reducer_idx l = i) (merged_lines input_dir)))
      = filter (\<lambda>l. reducer_idx l = i) (merged_lines input_dir)"
    by (rule readlines_concat) (simp add: whole_merged_lines [OF assms(1)])
  with group_stage_written [OF assms(2)] show ?thesis by simp
qed

lemma reducer_input_whole:
  assumes "\<forall>l \<in> set (merged_lines input_dir). whole_line l" and "i < MAX_NUM_REDUCE"
  shows "reducer_input (fst (snd (group_stage input_dir output_dir))) i =
      filter (\<lambda>l. reducer_idx l = i) (merged_lines input_dir)"
proof -
  have "readlines (concat (filter (\<lambda>l. reducer_idx l = i) (merged_lines input_dir)))
      = filter (\<lambda>l. reducer_idx l = i) (merged_lines input_dir)"
    by (rule readlines_concat) (simp add: assms(1))
  then show ?thesis
    by (simp add: reducer_input_def group_stage_written [OF assms(2)])
qed

lemma mset_partition:
  "mset (concat (map (\<lambda>i. filter (\<lambda>l. f l = i) xs) [0..<n])) = mset (filter (\<lambda>l. f l < n) xs)"
proof (induction n)
  case 0
  then show ?case by simp
next
  case (Suc n)
  have "mset (filter (\<lambda>l. f l < n) xs) + mset (filter (\<lambda>l. f l = n) xs)
      = mset (filter (\<lambda>l. f l < Suc n) xs)"
    by (induction xs) (auto simp: less_Suc_eq)
  with Suc show ?case by simp
qed

lemma all_reducer_inputs:
  assumes "\<forall>l \<in> set (merged_lines input_dir). whole_line l"
  shows "mset (concat (map (reducer_input (fst (snd (group_stage input_dir output_dir))))
            [0..<MAX_NUM_REDUCE]))
      = mset (merged_lines input_dir)"
proof -
  have "map (reducer_input (fst (snd (group_stage input_dir output_dir)))) [0..<MAX_NUM_REDUCE]
      = map (\<lambda>i. filter (\<lambda>l. reducer_idx l = i) (merged_lines input_dir)) [0..<MAX_NUM_REDUCE]"
    using assms by (simp add: reducer_input_whole)
  then show ?thesis
    by (simp only: mset_partition) (simp add: reducer_idx_less)
qed

lemma total_length:
  "(\<Sum>i\<leftarrow>ns. length (f i)) = size (mset (concat (map f ns)))"
  by (simp add: length_concat comp_def)

lemma key_between:
  "whole_line x \<Longrightarrow> whole_line y \<Longrightarrow> x \<le> z \<Longrightarrow> z \<le> y \<Longrightarrow> key_of x = key_of y
     \<Longrightarrow> key_of z = key_of x"
proof (induction x arbitrary: y z)
  case Nil
  then show ?case by (simp add: whole_line_def)
next
  case (Cons a x)
  obtain b y' where y: "y = b # y'"
    using Cons.prems(2) by (cases y) (auto simp: whole_line_def)
  obtain c z' where z: "z = c # z'"
    using Cons.prems(3) by (cases z) auto
  show ?case
  proof (cases "a = TAB")
    case True
    with Cons.prems y have "b = TAB"
      by (auto simp: key_of_def split: if_splits)
    with True Cons.prems(3,4) y z have "c = TAB"
      by (auto simp: Cons_le_Cons)
    with True show ?thesis by (simp add: key_of_def z)
  next
    case False
    with Cons.prems y have ab: "b = a" and keys: "key_of x = key_of y'"
      by (auto simp: key_of_def split: if_splits)
    with Cons.prems(3,4) y z have ca: "c = a" and le: "x \<le> z'" "z' \<le> y'"
      by (auto simp: Cons_le_Cons)
    show ?thesis
    proof (cases "a = LF")
      case True
      with Cons.prems(1,2) y ab have "x = []" "y' = []"
        by (auto simp: whole_line_def split: if_splits)
      with le have "z' = []" by simp
      with True ca z \<open>x = []\<close> show ?thesis by (simp add: key_of_def)
    next
      case notLF: False
      with Cons.prems(1,2) y ab have "whole_line x" "whole_line y'"
        by (auto simp: whole_line_def split: if_splits)
      from Cons.IH [OF this le keys] False ca z show ?thesis
        by (simp add: key_of_def)
    qed
  qed
qed

lemma sorted_grouped:
  "sorted ls \<Longrightarrow> \<forall>l \<in> set ls. whole_line l \<Longrightarrow> grouped_by_key ls"
proof (induction ls)
  case Nil
  then show ?case by simp
next
  case (Cons l ls)
  define rest where "rest = dropWhile (\<lambda>m. key_of m = key_of l) ls"
  have sub: "set rest \<subseteq> set ls"
    unfolding rest_def by (auto dest: set_dropWhileD)
  have srt: "sorted rest"
    unfolding rest_def using Cons.prems(1) by (simp add: sorted_dropWhile)
  have first: "rest \<noteq> [] \<Longrightarrow> key_of (hd rest) \<noteq> key_of l"
    unfolding rest_def by (rule hd_dropWhile)
  have "key_of m \<noteq> key_of l" if m: "m \<in> set rest" for m
  proof
    assume same: "key_of m = key_of l"
    from m obtain z zs where rest: "rest = z # zs"
      by (cases rest) auto
    with first have zkey: "key_of z \<noteq> key_of l"
      by simp
    from srt rest m have "z \<le> m"
      by auto
    moreover have "l \<le> z"
      using Cons.prems(1) sub rest by auto
    moreover have "whole_line l" "whole_line m"
      using Cons.prems(2) sub m by auto
    ultimately have "key_of z = key_of l"
      using key_between [of l m z] same by simp
    with zkey show False by simp
  qed
  then have "list_all (\<lambda>m. key_of m \<noteq> key_of l) rest"
    by (simp add: list_all_iff)
  moreover have "grouped_by_key ls"
    using Cons by simp
  ultimately show ?case
    by (simp add: rest_def)
qed

lemma two_mappers_terminated: "list_all newline_terminated (map snd two_mappers)"
  by code_simp

lemma unterminated_merged:
  "merged_lines unterminated_mapper =
     [''k'' @ [TAB] @ ''2k'' @ [TAB] @ ''2'' @ [LF], ''k'' @ [TAB] @ ''2'' @ [LF]]"
  by code_simp

lemma fused_merged: "merged_lines fused_mapper = [''ab'' @ [LF]]"
  by code_simp

lemma split_merged:
  "merged_lines split_mapper = [''a'' @ [TAB] @ ''1b'' @ [TAB] @ ''1'' @ [LF]]"
  by code_simp

lemma tied_merged:
  "merged_lines tied_mappers =
     [''k'' @ [TAB] @ ''2k'' @ [TAB] @ ''2'' @ [LF], ''k'' @ [TAB] @ ''2'' @ [LF],
      ''k'' @ [TAB] @ ''2k'' @ [TAB] @ ''2'' @ [LF], ''k'' @ [TAB] @ ''3'' @ [LF]]"
  by code_simp

lemma tied_merged_rev:
  "merged_lines (rev tied_mappers) =
     [''k'' @ [TAB] @ ''2k'' @ [TAB] @ ''2'' @ [LF], ''k'' @ [TAB] @ ''2k'' @ [TAB] @ ''2'' @ [LF],
      ''k'' @ [TAB] @ ''2'' @ [LF], ''k'' @ [TAB] @ ''3'' @ [LF]]"
  by code_simp

subsection \<open>Order within a reducer-input file\<close>

text \<open>
  C1 (as amended). When every line of every mapper-output file ends with a newline,
  every reducer-input file the group stage writes has its lines in non-decreasing
  whole-line order, and the lines that share a key are contiguous in it.
\<close>

theorem group_stage_sorted:
  assumes "list_all newline_terminated (map snd input_dir)" and "i < MAX_NUM_REDUCE"
  shows "\<exists>text. map_of (fst (snd (group_stage input_dir output_dir))) (part_filename i)
            = Some text
          \<and> sorted (readlines text) \<and> grouped_by_key (readlines text)"
proof -
  from reducer_lines [OF assms] obtain content where
    content: "map_of (fst (snd (group_stage input_dir output_dir))) (part_filename i) = Some content"
    and ls: "readlines content = filter (\<lambda>l. reducer_idx l = i) (merged_lines input_dir)"
    by blast
  have "sorted (readlines content)"
    using sorted_merged_lines [OF assms(1)] by (simp add: ls sorted_wrt_filter)
  moreover have "\<forall>l \<in> set (readlines content). whole_line l"
    using whole_merged_lines [OF assms(1)] by (simp add: ls)
  ultimately show ?thesis
    using content sorted_grouped by blast
qed

theorem group_stage_sorted_witness:
  "list_all newline_terminated (map snd two_mappers) \<and> 1 < MAX_NUM_REDUCE \<and>
   (\<exists>text. map_of (fst (snd (group_stage two_mappers []))) (part_filename 1) = Some text
          \<and> sorted (readlines text) \<and> grouped_by_key (readlines text))"
proof -
  have h1: "list_all newline_terminated (map snd two_mappers)"
    by (rule two_mappers_terminated)
  have h2: "1 < MAX_NUM_REDUCE"
    by (simp add: MAX_NUM_REDUCE_def)
  from group_stage_sorted [OF h1 h2] h1 h2 show ?thesis
    by blast
qed

theorem group_stage_sorted_counterexample:
  "map_of (fst (snd (group_stage unterminated_mapper []))) ''part-00003'' =
     Some (''k'' @ [TAB] @ ''2k'' @ [TAB] @ ''2'' @ [LF] @ ''k'' @ [TAB] @ ''2'' @ [LF]) \<and>
   readlines (''k'' @ [TAB] @ ''2k'' @ [TAB] @ ''2'' @ [LF] @ ''k'' @ [TAB] @ ''2'' @ [LF]) =
     [''k'' @ [TAB] @ ''2k'' @ [TAB] @ ''2'' @ [LF], ''k'' @ [TAB] @ ''2'' @ [LF]] \<and>
   \<not> sorted [''k'' @ [TAB] @ ''2k'' @ [TAB] @ ''2'' @ [LF], ''k'' @ [TAB] @ ''2'' @ [LF]]"
proof -
  have i: "3 < MAX_NUM_REDUCE"
    by (simp add: MAX_NUM_REDUCE_def)
  have "map_of (fst (snd (group_stage unterminated_mapper []))) (part_filename 3) =
      Some (''k'' @ [TAB] @ ''2k'' @ [TAB] @ ''2'' @ [LF] @ ''k'' @ [TAB] @ ''2'' @ [LF])"
    unfolding group_stage_written [OF i] unterminated_merged
    by (simp add: reducer_idx_def key_of_def keyhash_k MAX_NUM_REDUCE_def)
  moreover have "readlines
      (''k'' @ [TAB] @ ''2k'' @ [TAB] @ ''2'' @ [LF] @ ''k'' @ [TAB] @ ''2'' @ [LF]) =
     [''k'' @ [TAB] @ ''2k'' @ [TAB] @ ''2'' @ [LF], ''k'' @ [TAB] @ ''2'' @ [LF]]"
    by code_simp
  moreover have
    "\<not> sorted [''k'' @ [TAB] @ ''2k'' @ [TAB] @ ''2'' @ [LF], ''k'' @ [TAB] @ ''2'' @ [LF]]"
    by code_simp
  ultimately show ?thesis
    by (simp only: part_filename_3) simp
qed

subsection \<open>Key locality\<close>

text \<open>
  C2 (as amended). When every line of every mapper-output file ends with a newline, the
  records with key \<open>K\<close> are all in the reducer-input file whose ordinal is the MD5 key
  hash of \<open>K\<close> modulo \<open>MAX_NUM_REDUCE\<close>, each as often as the mapper-output files hold
  it, and no other reducer-input file holds a record with key \<open>K\<close>.
\<close>

theorem group_stage_key_locality:
  assumes "list_all newline_terminated (map snd input_dir)"
  shows "keyhash K mod MAX_NUM_REDUCE < MAX_NUM_REDUCE \<and>
     mset (filter (\<lambda>l. key_of l = K)
            (reducer_input (fst (snd (group_stage input_dir output_dir)))
               (keyhash K mod MAX_NUM_REDUCE)))
       = mset (filter (\<lambda>l. key_of l = K) (mapper_records input_dir)) \<and>
     (\<forall>i < MAX_NUM_REDUCE. i \<noteq> keyhash K mod MAX_NUM_REDUCE \<longrightarrow>
        filter (\<lambda>l. key_of l = K)
          (reducer_input (fst (snd (group_stage input_dir output_dir))) i) = [])"
proof -
  have whole: "\<forall>l \<in> set (merged_lines input_dir). whole_line l"
    using whole_merged_lines [OF assms] by blast
  have idx: "keyhash K mod MAX_NUM_REDUCE < MAX_NUM_REDUCE"
    by (simp add: MAX_NUM_REDUCE_def)
  have "filter (\<lambda>l. key_of l = K)
          (filter (\<lambda>l. reducer_idx l = keyhash K mod MAX_NUM_REDUCE) (merged_lines input_dir))
      = filter (\<lambda>l. key_of l = K) (merged_lines input_dir)"
    by (auto simp: reducer_idx_of_key intro: filter_cong)
  then have here: "mset (filter (\<lambda>l. key_of l = K)
            (reducer_input (fst (snd (group_stage input_dir output_dir)))
               (keyhash K mod MAX_NUM_REDUCE)))
       = mset (filter (\<lambda>l. key_of l = K) (mapper_records input_dir))"
    using mset_merged_lines [OF assms]
    by (simp add: reducer_input_whole [OF whole idx] mset_filter del: filter_filter)
  have "filter (\<lambda>l. key_of l = K)
          (reducer_input (fst (snd (group_stage input_dir output_dir))) i) = []"
    if "i < MAX_NUM_REDUCE" and "i \<noteq> keyhash K mod MAX_NUM_REDUCE" for i
    using that by (auto simp: reducer_input_whole [OF whole] filter_empty_conv
        reducer_idx_of_key)
  with idx here show ?thesis by blast
qed

theorem group_stage_key_locality_witness:
  "list_all newline_terminated (map snd two_mappers) \<and>
   keyhash ''a'' mod MAX_NUM_REDUCE = 1 \<and>
   mset (filter (\<lambda>l. key_of l = ''a'')
          (reducer_input (fst (snd (group_stage two_mappers []))) 1))
     = mset (filter (\<lambda>l. key_of l = ''a'') (mapper_records two_mappers)) \<and>
   filter (\<lambda>l. key_of l = ''a'')
     (reducer_input (fst (snd (group_stage two_mappers []))) 3) = []"
proof -
  have a: "keyhash ''a'' mod MAX_NUM_REDUCE = 1"
    by (simp add: keyhash_a MAX_NUM_REDUCE_def)
  have "3 < MAX_NUM_REDUCE"
    by (simp add: MAX_NUM_REDUCE_def)
  with group_stage_key_locality [OF two_mappers_terminated, of "''a''" "[]"] a
    two_mappers_terminated
  show ?thesis by simp
qed

theorem group_stage_key_locality_counterexample:
  "''b'' @ [TAB] @ ''1'' @ [LF] \<in> set (mapper_records split_mapper) \<and>
   key_of (''b'' @ [TAB] @ ''1'' @ [LF]) = ''b'' \<and>
   keyhash ''b'' mod MAX_NUM_REDUCE = 3 \<and>
   reducer_input (fst (snd (group_stage split_mapper []))) 3 = [] \<and>
   reducer_input (fst (snd (group_stage split_mapper []))) 1 =
     [''a'' @ [TAB] @ ''1b'' @ [TAB] @ ''1'' @ [LF]]"
proof -
  have whole: "\<forall>l \<in> set (merged_lines split_mapper). whole_line l"
    unfolding split_merged by (simp add: whole_line_def)
  have lt: "3 < MAX_NUM_REDUCE" "1 < MAX_NUM_REDUCE"
    by (simp_all add: MAX_NUM_REDUCE_def)
  have "''b'' @ [TAB] @ ''1'' @ [LF] \<in> set (mapper_records split_mapper)"
    by code_simp
  moreover have "key_of (''b'' @ [TAB] @ ''1'' @ [LF]) = ''b''"
    by code_simp
  moreover have "keyhash ''b'' mod MAX_NUM_REDUCE = 3"
    by (simp add: keyhash_b MAX_NUM_REDUCE_def)
  moreover have "reducer_input (fst (snd (group_stage split_mapper []))) 3 = []"
    unfolding reducer_input_whole [OF whole lt(1)] split_merged
    by (simp add: reducer_idx_def key_of_def keyhash_a MAX_NUM_REDUCE_def)
  moreover have "reducer_input (fst (snd (group_stage split_mapper []))) 1 =
      [''a'' @ [TAB] @ ''1b'' @ [TAB] @ ''1'' @ [LF]]"
    unfolding reducer_input_whole [OF whole lt(2)] split_merged
    by (simp add: reducer_idx_def key_of_def keyhash_a MAX_NUM_REDUCE_def)
  ultimately show ?thesis by blast
qed

subsection \<open>Conservation of records\<close>

text \<open>
  C3 (as amended). When every line of every mapper-output file ends with a newline, the
  records of the reducer-input files, taken together, are the records of the
  mapper-output files, each as often as it occurs there; so the two totals agree.
\<close>

theorem group_stage_conserves_records:
  assumes "list_all newline_terminated (map snd input_dir)"
  shows "(\<Sum>i\<leftarrow>[0..<MAX_NUM_REDUCE].
            length (reducer_input (fst (snd (group_stage input_dir output_dir))) i))
          = (\<Sum>(name, raw)\<leftarrow>input_dir. length (readlines raw))
        \<and> mset (concat (map (reducer_input (fst (snd (group_stage input_dir output_dir))))
              [0..<MAX_NUM_REDUCE]))
          = mset (mapper_records input_dir)"
proof -
  have whole: "\<forall>l \<in> set (merged_lines input_dir). whole_line l"
    using whole_merged_lines [OF assms] by blast
  have all: "mset (concat (map (reducer_input (fst (snd (group_stage input_dir output_dir))))
      [0..<MAX_NUM_REDUCE])) = mset (mapper_records input_dir)"
    by (simp add: all_reducer_inputs [OF whole] mset_merged_lines [OF assms])
  have "length (mapper_records input_dir) = (\<Sum>(name, raw)\<leftarrow>input_dir. length (readlines raw))"
    by (simp add: mapper_records_def length_concat comp_def case_prod_unfold)
  with all show ?thesis
    by (simp add: total_length)
qed

theorem group_stage_conserves_records_witness:
  "list_all newline_terminated (map snd two_mappers) \<and>
   (\<Sum>i\<leftarrow>[0..<MAX_NUM_REDUCE].
       length (reducer_input (fst (snd (group_stage two_mappers []))) i))
     = (\<Sum>(name, raw)\<leftarrow>two_mappers. length (readlines raw)) \<and>
   (\<Sum>(name, raw)\<leftarrow>two_mappers. length (readlines raw)) = 3"
proof -
  have "(\<Sum>(name, raw)\<leftarrow>two_mappers. length (readlines raw)) = 3"
    by code_simp
  with group_stage_conserves_records [OF two_mappers_terminated, of "[]"]
    two_mappers_terminated
  show ?thesis by simp
qed

theorem group_stage_conserves_records_counterexample:
  "(\<Sum>(name, raw)\<leftarrow>fused_mapper. length (readlines raw)) = 2 \<and>
   (\<Sum>i\<leftarrow>[0..<MAX_NUM_REDUCE].
       length (reducer_input (fst (snd (group_stage fused_mapper []))) i)) = 1"
proof -
  have "\<forall>l \<in> set (merged_lines fused_mapper). whole_line l"
    unfolding fused_merged by (simp add: whole_line_def)
  from all_reducer_inputs [OF this, of "[]"]
  have "(\<Sum>i\<leftarrow>[0..<MAX_NUM_REDUCE].
       length (reducer_input (fst (snd (group_stage fused_mapper []))) i)) = 1"
    by (simp add: total_length fused_merged)
  moreover have "(\<Sum>(name, raw)\<leftarrow>fused_mapper. length (readlines raw)) = 2"
    by code_simp
  ultimately show ?thesis by simp
qed

subsection \<open>The number of reducer-input files\<close>

text \<open>
  C4. Whatever the input directory holds, the group stage returns \<open>MAX_NUM_REDUCE = 4\<close>
  and the output directory gains exactly the files \<open>part-00000\<close> to \<open>part-00003\<close>; the
  model has no error result, so nothing is raised. With no mapper-output file at all the
  four files are created empty.
\<close>

theorem group_stage_creates_all:
  "snd (snd (group_stage input_dir output_dir)) = MAX_NUM_REDUCE \<and>
   MAX_NUM_REDUCE = 4 \<and>
   fst ` set (fst (snd (group_stage input_dir output_dir))) =
     fst ` set output_dir \<union> {''part-00000'', ''part-00001'', ''part-00002'', ''part-00003''} \<and>
   group_stage [] [] =
     ([], [(''part-00000'', []), (''part-00001'', []), (''part-00002'', []),
           (''part-00003'', [])], 4)"
proof -
  have names: "part_filename ` set [0..<MAX_NUM_REDUCE] =
      {''part-00000'', ''part-00001'', ''part-00002'', ''part-00003''}"
    by code_simp
  have empty: "group_stage [] [] =
     ([], [(''part-00000'', []), (''part-00001'', []), (''part-00002'', []),
           (''part-00003'', [])], 4)"
    by code_simp
  show ?thesis
    using names empty
    by (simp add: group_stage_eq names_fold_update)
qed

subsection \<open>Independence of the listing order\<close>

text \<open>
  C5 (as amended). When every line of every mapper-output file ends with a newline, the
  reducer-input files do not depend on the order in which the mapper-output files are
  listed: two listings of the same files give the same output directory and count.
\<close>

theorem group_stage_order_independent:
  assumes "list_all newline_terminated (map snd input_dir)"
    and "mset input_dir' = mset input_dir"
  shows "snd (group_stage input_dir' output_dir) = snd (group_stage input_dir output_dir)"
proof -
  have "set input_dir' = set input_dir"
    using assms(2) by (rule mset_eq_setD)
  with assms(1) have term': "list_all newline_terminated (map snd input_dir')"
    by (simp add: list_all_iff)
  have "mset (merged_lines input_dir') = mset (merged_lines input_dir)"
    by (simp add: mset_merged_lines [OF assms(1)] mset_merged_lines [OF term']
        mset_mapper_records [OF assms(2)])
  with sorted_merged_lines [OF term'] sorted_merged_lines [OF assms(1)]
  have "merged_lines input_dir' = merged_lines input_dir"
    by (rule sorted_same_mset)
  then show ?thesis
    by (simp add: group_stage_eq)
qed

theorem group_stage_order_independent_witness:
  "list_all newline_terminated (map snd two_mappers) \<and>
   mset (rev two_mappers) = mset two_mappers \<and>
   snd (group_stage (rev two_mappers) []) = snd (group_stage two_mappers [])"
proof -
  have "mset (rev two_mappers) = mset two_mappers"
    by simp
  with group_stage_order_independent [OF two_mappers_terminated this, of "[]"]
    two_mappers_terminated
  show ?thesis by simp
qed

theorem group_stage_order_independent_counterexample:
  "mset (rev tied_mappers) = mset tied_mappers \<and>
   map_of (fst (snd (group_stage tied_mappers []))) ''part-00003'' =
     Some (''k'' @ [TAB] @ ''2k'' @ [TAB] @ ''2'' @ [LF] @ ''k'' @ [TAB] @ ''2'' @ [LF]
           @ ''k'' @ [TAB] @ ''2k'' @ [TAB] @ ''2'' @ [LF] @ ''k'' @ [TAB] @ ''3'' @ [LF]) \<and>
   map_of (fst (snd (group_stage (rev tied_mappers) []))) ''part-00003'' =
     Some (''k'' @ [TAB] @ ''2k'' @ [TAB] @ ''2'' @ [LF] @ ''k'' @ [TAB] @ ''2k'' @ [TAB] @ ''2''
           @ [LF] @ ''k'' @ [TAB] @ ''2'' @ [LF] @ ''k'' @ [TAB] @ ''3'' @ [LF]) \<and>
   snd (group_stage (rev tied_mappers) []) \<noteq> snd (group_stage tied_mappers [])"
proof -
  have i: "3 < MAX_NUM_REDUCE"
    by (simp add: MAX_NUM_REDUCE_def)
  have one: "map_of (fst (snd (group_stage tied_mappers []))) (part_filename 3) =
     Some (''k'' @ [TAB] @ ''2k'' @ [TAB] @ ''2'' @ [LF] @ ''k'' @ [TAB] @ ''2'' @ [LF]
           @ ''k'' @ [TAB] @ ''2k'' @ [TAB] @ ''2'' @ [LF] @ ''k'' @ [TAB] @ ''3'' @ [LF])"
    unfolding group_stage_written [OF i] tied_merged
    by (simp add: reducer_idx_def key_of_def keyhash_k MAX_NUM_REDUCE_def)
  have two: "map_of (fst (snd (group_stage (rev tied_mappers) []))) (part_filename 3) =
     Some (''k'' @ [TAB] @ ''2k'' @ [TAB] @ ''2'' @ [LF] @ ''k'' @ [TAB] @ ''2k'' @ [TAB] @ ''2''
           @ [LF] @ ''k'' @ [TAB] @ ''2'' @ [LF] @ ''k'' @ [TAB] @ ''3'' @ [LF])"
    unfolding group_stage_written [OF i] tied_merged_rev
    by (simp add: reducer_idx_def key_of_def keyhash_k MAX_NUM_REDUCE_def)
  have "map_of (fst (snd (group_stage (rev tied_mappers) []))) (part_filename 3) \<noteq>
      map_of (fst (snd (group_stage tied_mappers []))) (part_filename 3)"
    unfolding one two by simp
  then have "snd (group_stage (rev tied_mappers) []) \<noteq> snd (group_stage tied_mappers [])"
    by metis
  moreover have "mset (rev tied_mappers) = mset tied_mappers"
    by simp
  ultimately show ?thesis
    using one two by (simp only: part_filename_3) simp
qed

section \<open>Properties of the input preparer\<close>

lemma num_splits_zero: "num_splits (length raw) = 0 \<longleftrightarrow> raw = []"
  by (auto simp: num_splits_def MAX_INPUT_SPLIT_SIZE_def)

lemma num_splits_small:
  "0 < n \<Longrightarrow> n \<le> MAX_INPUT_SPLIT_SIZE \<Longrightarrow> num_splits n = 1"
  by (cases "n = MAX_INPUT_SPLIT_SIZE") (auto simp: num_splits_def MAX_INPUT_SPLIT_SIZE_def)

lemma num_splits_large: "MAX_INPUT_SPLIT_SIZE < n \<Longrightarrow> 1 < num_splits n"
proof -
  assume big: "MAX_INPUT_SPLIT_SIZE < n"
  then have "1 \<le> n div MAX_INPUT_SPLIT_SIZE"
    by (simp add: MAX_INPUT_SPLIT_SIZE_def Suc_le_eq div_greater_zero_iff)
  moreover have "n mod MAX_INPUT_SPLIT_SIZE = 0 \<Longrightarrow> 2 \<le> n div MAX_INPUT_SPLIT_SIZE"
  proof -
    assume "n mod MAX_INPUT_SPLIT_SIZE = 0"
    then obtain q where q: "n = MAX_INPUT_SPLIT_SIZE * q"
      by (auto simp: mod_eq_0_iff_dvd)
    with big have "1 < q"
      by (cases q) (auto simp: MAX_INPUT_SPLIT_SIZE_def)
    with q show ?thesis by (simp add: MAX_INPUT_SPLIT_SIZE_def)
  qed
  ultimately show ?thesis
    by (auto simp: num_splits_def)
qed

lemma distribute_result:
  assumes "0 < n" and "length outs = n"
  shows "\<exists>outs'. distribute n i ls outs = Inr outs' \<and> length outs' = n \<and>
     (\<forall>j < n. outs' ! j =
        outs ! j @ concat (map (\<lambda>k. ls ! k) (filter (\<lambda>k. (i + k) mod n = j) [0..<length ls])))"
  using assms(2)
proof (induction ls arbitrary: i outs)
  case Nil
  then show ?case by simp
next
  case (Cons l ls)
  let ?outs = "outs[i mod n := outs ! (i mod n) @ l]"
  have len: "length ?outs = n"
    using Cons.prems by simp
  from Cons.IH [OF len, of "Suc i"] obtain outs' where
    run: "distribute n (Suc i) ls ?outs = Inr outs'" and len': "length outs' = n" and
    nth: "\<forall>j < n. outs' ! j =
        ?outs ! j @ concat (map (\<lambda>k. ls ! k) (filter (\<lambda>k. (Suc i + k) mod n = j) [0..<length ls]))"
    by blast
  have upt: "[0..<length (l # ls)] = 0 # map Suc [0..<length ls]"
    by (simp add: upt_conv_Cons map_Suc_upt del: upt_Suc)
  have "outs' ! j =
        outs ! j @ concat (map (\<lambda>k. (l # ls) ! k)
          (filter (\<lambda>k. (i + k) mod n = j) [0..<length (l # ls)]))" if j: "j < n" for j
  proof -
    have "concat (map (\<lambda>k. (l # ls) ! k) (filter (\<lambda>k. (i + k) mod n = j) (map Suc [0..<length ls])))
        = concat (map (\<lambda>k. ls ! k) (filter (\<lambda>k. (Suc i + k) mod n = j) [0..<length ls]))"
      by (simp add: filter_map comp_def)
    with nth j Cons.prems show ?thesis
      unfolding upt by (auto simp: nth_list_update)
  qed
  with run len' assms(1) show ?case by auto
qed

lemma round_robin_distribute:
  assumes "0 < n"
  shows "\<exists>outs. distribute n 0 ls (replicate n []) = Inr outs \<and> length outs = n \<and>
     (\<forall>j < n. outs ! j = round_robin n ls j)"
  using distribute_result [OF assms, of "replicate n []" 0 ls]
  by (auto simp: round_robin_def)

lemma fold_zip_update:
  assumes "length outs = n"
  shows "fold (\<lambda>(name, content) dir. AList.update name content dir)
          (zip (map (\<lambda>i. part_filename (p + i)) [0..<n]) outs) dir0
      = fold (\<lambda>m dir. AList.update (part_filename m) (outs ! (m - p)) dir)
          (map (\<lambda>i. p + i) [0..<n]) dir0"
proof -
  have "zip (map (\<lambda>i. part_filename (p + i)) [0..<n]) outs
      = map (\<lambda>i. (part_filename (p + i), outs ! i)) [0..<n]"
    using assms by (intro nth_equalityI) auto
  then show ?thesis
    by (simp add: fold_map comp_def)
qed

lemma split_file_result:
  "\<exists>dir'. split_file raw (dir, p) = Inr (dir', p + num_splits (length raw)) \<and>
     (\<forall>j < num_splits (length raw).
        map_of dir' (part_filename (p + j)) =
          Some (round_robin (num_splits (length raw)) (readlines raw) j)) \<and>
     (\<forall>m. m < p \<or> p + num_splits (length raw) \<le> m \<longrightarrow>
        map_of dir' (part_filename m) = map_of dir (part_filename m))"
proof (cases "num_splits (length raw) = 0")
  case True
  then have "raw = []"
    by (simp add: num_splits_zero)
  then show ?thesis
    by (simp add: split_file_def num_splits_def readlines_def)
next
  case False
  define n where "n = num_splits (length raw)"
  from False have "0 < n"
    by (simp add: n_def)
  from round_robin_distribute [OF this, of "readlines raw"] obtain outs where
    run: "distribute n 0 (readlines raw) (replicate n []) = Inr outs" and
    len: "length outs = n" and
    nth: "\<forall>j < n. outs ! j = round_robin n (readlines raw) j"
    by blast
  define dir' where "dir' =
     fold (\<lambda>m dir. AList.update (part_filename m) (outs ! (m - p)) dir)
       (map (\<lambda>i. p + i) [0..<n]) dir"
  have res: "split_file raw (dir, p) = Inr (dir', p + n)"
    by (simp add: split_file_def Let_def run fold_zip_update [OF len] dir'_def
        flip: n_def)
  have inside: "map_of dir' (part_filename (p + j)) = Some (round_robin n (readlines raw) j)"
    if "j < n" for j
  proof -
    from that have "\<exists>i \<in> set (map (\<lambda>i. p + i) [0..<n]). part_filename i = part_filename (p + j)"
      by auto
    with that nth show ?thesis
      by (simp add: dir'_def map_of_fold_update part_filename_value)
  qed
  have outside: "map_of dir' (part_filename m) = map_of dir (part_filename m)"
    if "m < p \<or> p + n \<le> m" for m
  proof -
    from that have "\<not> (\<exists>i \<in> set (map (\<lambda>i. p + i) [0..<n]). part_filename i = part_filename m)"
      by (auto simp: part_filename_inj)
    then show ?thesis
      by (simp add: dir'_def map_of_fold_update)
  qed
  from res inside outside show ?thesis
    unfolding n_def by blast
qed

lemma split_files_result:
  "\<exists>dir'. split_files raws (dir, p) = Inr (dir', p + total_splits raws) \<and>
     (\<forall>k < length raws. \<forall>j < num_splits (length (raws ! k)).
        map_of dir' (part_filename (p + total_splits (take k raws) + j)) =
          Some (round_robin (num_splits (length (raws ! k))) (readlines (raws ! k)) j)) \<and>
     (\<forall>m < p. map_of dir' (part_filename m) = map_of dir (part_filename m))"
proof (induction raws arbitrary: dir p)
  case Nil
  then show ?case by (simp add: total_splits_def)
next
  case (Cons raw raws)
  define n where "n = num_splits (length raw)"
  from split_file_result [of raw dir p] obtain dir1 where
    one: "split_file raw (dir, p) = Inr (dir1, p + n)" and
    in1: "\<forall>j < n. map_of dir1 (part_filename (p + j)) = Some (round_robin n (readlines raw) j)" and
    out1: "\<forall>m. m < p \<or> p + n \<le> m \<longrightarrow>
        map_of dir1 (part_filename m) = map_of dir (part_filename m)"
    unfolding n_def by blast
  from Cons.IH [of dir1 "p + n"] obtain dir' where
    rest: "split_files raws (dir1, p + n) = Inr (dir', p + n + total_splits raws)" and
    in2: "\<forall>k < length raws. \<forall>j < num_splits (length (raws ! k)).
        map_of dir' (part_filename (p + n + total_splits (take k raws) + j)) =
          Some (round_robin (num_splits (length (raws ! k))) (readlines (raws ! k)) j)" and
    out2: "\<forall>m < p + n. map_of dir' (part_filename m) = map_of dir1 (part_filename m)"
    by blast
  have run: "split_files (raw # raws) (dir, p) = Inr (dir', p + total_splits (raw # raws))"
    using one rest by (simp add: total_splits_def n_def)
  have inside: "map_of dir' (part_filename (p + total_splits (take k (raw # raws)) + j)) =
      Some (round_robin (num_splits (length ((raw # raws) ! k))) (readlines ((raw # raws) ! k)) j)"
    if k: "k < length (raw # raws)" and j: "j < num_splits (length ((raw # raws) ! k))" for k j
  proof (cases k)
    case 0
    with j have "j < n" by (simp add: n_def)
    with in1 out2 0 show ?thesis
      by (simp add: total_splits_def n_def)
  next
    case (Suc k')
    with k j in2 show ?thesis
      by (simp add: total_splits_def n_def add.assoc)
  qed
  have outside: "map_of dir' (part_filename m) = map_of dir (part_filename m)" if "m < p" for m
    using that out1 out2 by simp
  from run inside outside show ?case by blast
qed

lemma length_big_file: "length big_file = MAX_INPUT_SPLIT_SIZE + 1"
  unfolding big_file_def by (rule length_replicate)

lemma num_splits_big_file: "num_splits (length big_file) = 2"
  unfolding length_big_file by (simp add: num_splits_def MAX_INPUT_SPLIT_SIZE_def)

lemma regular_files_mixed: "regular_files mixed_input = [big_file, ''b'' @ [LF]]"
  by (simp add: regular_files_def mixed_input_def)

text \<open>
  C6, at an empty regular file: its size, zero, is under the threshold, and the input
  preparer creates no partition for it.
\<close>

theorem prepare_input_files_empty_file:
  "num_splits (length ([] :: string)) = 0 \<and>
   prepare_input_files ''input'' (Dir [(''empty.txt'', Regular [])]) [] = Inr ([], 0)"
  by code_simp

text \<open>
  C7. When the input location is a directory, the input preparer returns the sum of the
  split counts of its regular files. The regular file number \<open>k\<close> in listing order, with
  \<open>N\<close> splits, owns the \<open>N\<close> ordinals that follow those of the files before it, and its
  partition number \<open>j\<close> holds exactly the lines of that file whose zero-based index is
  \<open>j\<close> modulo \<open>N\<close>, in their order.
\<close>

theorem prepare_input_files_round_robin:
  assumes "k < length (regular_files entries)"
    and "j < num_splits (length (regular_files entries ! k))"
  shows "\<exists>parts. prepare_input_files path (Dir entries) output_dir =
            Inr (parts, total_splits (regular_files entries)) \<and>
          map_of parts (part_filename (total_splits (take k (regular_files entries)) + j)) =
            Some (round_robin (num_splits (length (regular_files entries ! k)))
                    (readlines (regular_files entries ! k)) j)"
  using split_files_result [of "regular_files entries" output_dir 0] assms
  by (auto simp: prepare_input_files_def)

theorem prepare_input_files_round_robin_witness:
  "1 < length (regular_files mixed_input) \<and>
   0 < num_splits (length (regular_files mixed_input ! 1)) \<and>
   (\<exists>parts. prepare_input_files ''input'' (Dir mixed_input) [] = Inr (parts, 3) \<and>
            map_of parts ''part-00002'' = Some (''b'' @ [LF]))"
proof -
  have k: "1 < length (regular_files mixed_input)"
    by (simp add: regular_files_mixed)
  have j: "0 < num_splits (length (regular_files mixed_input ! 1))"
    by (simp add: regular_files_mixed num_splits_def MAX_INPUT_SPLIT_SIZE_def)
  have total: "total_splits (regular_files mixed_input) = 3"
    by (simp add: regular_files_mixed total_splits_def num_splits_big_file)
       (simp add: num_splits_def MAX_INPUT_SPLIT_SIZE_def)
  have before: "total_splits (take 1 (regular_files mixed_input)) + 0 = 2"
    by (simp add: regular_files_mixed total_splits_def num_splits_big_file)
  have name: "part_filename 2 = ''part-00002''"
    by code_simp
  have second: "regular_files mixed_input ! 1 = ''b'' @ [LF]"
    by (simp add: regular_files_mixed)
  have content: "round_robin (num_splits (length (regular_files mixed_input ! 1)))
      (readlines (regular_files mixed_input ! 1)) 0 = ''b'' @ [LF]"
    unfolding second by code_simp
  from prepare_input_files_round_robin [OF k j, of "''input''" "[]"]
  show ?thesis
    unfolding total before name content using k j by blast
qed

section \<open>Properties of the orchestrator\<close>

lemma strip_reversed_LF: "strip_reversed (LF # r) = strip_reversed r"
proof (cases r)
  case Nil
  then show ?thesis by (simp add: ascii_space_def)
next
  case (Cons b r')
  then show ?thesis by (cases r') (simp_all add: ascii_space_def)
qed

lemma rstrip_readline: "rstrip (readline content) = rstrip (first_line content)"
  using readline_first_line [of content]
  by (auto simp: rstrip_def strip_reversed_LF)

lemma rstrip_SHEBANG: "rstrip SHEBANG = SHEBANG"
  by code_simp

lemma check_shebang_eq:
  "check_shebang exe =
     (case exe_file exe of
        Inl e \<Rightarrow> Inl e
      | Inr content \<Rightarrow>
          if rstrip (first_line content) = SHEBANG then Inr ()
          else Inl (MadoopError (shebang_message exe content)))"
  by (simp add: check_shebang_def Let_def rstrip_readline shebang_message_def SHEBANG_def
      split: sum.splits)

lemma mkdir_eq:
  "fs w (output_parent w) = Dir entries \<Longrightarrow> mkdir w = Inr (output_created w entries)"
  by (simp add: mkdir_def output_created_def)

lemma mkdir_result:
  "mkdir w = Inr w1 \<Longrightarrow> fs w1 (output_place w) = Dir [] \<and> procs w1 = procs w"
  by (auto simp: mkdir_def split: location.splits)

lemma check_shebang_cat: "check_shebang cat_exe = Inr ()"
  by code_simp




lemma same_place_run:
  "fs same_place_world (input_place same_place_world) = Absent \<and>
   fst (mapreduce same_place_world cat_exe cat_exe) = None"
  by code_simp

lemma first_line_bash:
  "exe_file bash_exe = Inr (''#!/bin/bash'' @ [LF] @ ''cat'' @ [LF]) \<and>
   rstrip (first_line (''#!/bin/bash'' @ [LF] @ ''cat'' @ [LF])) = ''#!/bin/bash''"
  by code_simp

lemma first_line_cat:
  "exe_file cat_exe = Inr (''#!/usr/bin/env python3'' @ [LF] @ ''import sys'' @ [LF]) \<and>
   first_line (''#!/usr/bin/env python3'' @ [LF] @ ''import sys'' @ [LF]) = SHEBANG"
  by code_simp

lemma first_line_spaced:
  "exe_file spaced_exe = Inr (''#!/usr/bin/env python3 '' @ [LF] @ ''import sys'' @ [LF]) \<and>
   first_line (''#!/usr/bin/env python3 '' @ [LF] @ ''import sys'' @ [LF]) =
     ''#!/usr/bin/env python3 ''"
  by code_simp

text \<open>
  C9 (as amended). Let the output location not exist and its parent be a directory, and
  let the file of the map executable be readable as UTF-8 text. When its first line, with
  the trailing white space removed, is not the directive, or when that holds for the
  reduce executable, whose file is readable too, then the run fails with a \<open>MadoopError\<close>
  whose message names the first offending file, its first line and the directive; no
  subprocess has been started, and the world is as it was but for the output directory,
  which has been created and is empty. An executable whose file is readable and whose
  first line is exactly the directive passes the check.
\<close>

theorem mapreduce_checks_shebang:
  assumes "fs w (output_place w) = Absent" and "fs w (output_parent w) = Dir entries"
    and "exe_file map_exe = Inr mtext"
    and "rstrip (first_line mtext) \<noteq> SHEBANG \<or>
         (exe_file reduce_exe = Inr rtext \<and> rstrip (first_line rtext) \<noteq> SHEBANG)"
  shows "mapreduce w map_exe reduce_exe =
      (Some (MadoopError
         (if rstrip (first_line mtext) \<noteq> SHEBANG then shebang_message map_exe mtext
          else shebang_message reduce_exe rtext)),
       output_created w entries) \<and>
     (exe_file exe = Inr content \<and> first_line content = SHEBANG \<longrightarrow>
        check_shebang exe = Inr ())"
  using assms mkdir_eq [OF assms(2)]
  by (auto simp: mapreduce_def check_shebang_eq rstrip_SHEBANG)

theorem mapreduce_checks_shebang_witness:
  "fs fresh_world (output_place fresh_world) = Absent \<and>
   fs fresh_world (output_parent fresh_world) = Dir [(''input'', Subdirectory)] \<and>
   exe_file bash_exe = Inr (''#!/bin/bash'' @ [LF] @ ''cat'' @ [LF]) \<and>
   rstrip (first_line (''#!/bin/bash'' @ [LF] @ ''cat'' @ [LF])) \<noteq> SHEBANG \<and>
   mapreduce fresh_world bash_exe cat_exe =
     (Some (MadoopError (''map.sh: invalid shebang on first line '' @ [CHR 0x27]
        @ ''#!/bin/bash'' @ [CHR 0x27] @ ''.  Expected '' @ [CHR 0x27]
        @ ''#!/usr/bin/env python3'' @ [CHR 0x27])),
      output_created fresh_world [(''input'', Subdirectory)]) \<and>
   exe_file cat_exe = Inr (''#!/usr/bin/env python3'' @ [LF] @ ''import sys'' @ [LF]) \<and>
   first_line (''#!/usr/bin/env python3'' @ [LF] @ ''import sys'' @ [LF]) = SHEBANG \<and>
   check_shebang cat_exe = Inr ()"
proof -
  have out: "fs fresh_world (output_place fresh_world) = Absent"
    and parent: "fs fresh_world (output_parent fresh_world) = Dir [(''input'', Subdirectory)]"
    by (simp_all add: fresh_world_def)
  have readable: "exe_file bash_exe = Inr (''#!/bin/bash'' @ [LF] @ ''cat'' @ [LF])"
    using first_line_bash by simp
  have bad: "rstrip (first_line (''#!/bin/bash'' @ [LF] @ ''cat'' @ [LF])) \<noteq> SHEBANG \<or>
      (exe_file cat_exe = Inr [] \<and> rstrip (first_line []) \<noteq> SHEBANG)"
    using first_line_bash by (simp add: SHEBANG_def)
  have msg: "shebang_message bash_exe (''#!/bin/bash'' @ [LF] @ ''cat'' @ [LF]) =
      ''map.sh: invalid shebang on first line '' @ [CHR 0x27]
        @ ''#!/bin/bash'' @ [CHR 0x27] @ ''.  Expected '' @ [CHR 0x27]
        @ ''#!/usr/bin/env python3'' @ [CHR 0x27]"
    by code_simp
  from mapreduce_checks_shebang [OF out parent readable bad, of cat_exe
      "''#!/usr/bin/env python3'' @ [LF] @ ''import sys'' @ [LF]"]
    out parent first_line_bash first_line_cat msg
  show ?thesis
    by (simp add: SHEBANG_def)
qed

theorem mapreduce_checks_shebang_counterexample:
  "exe_file spaced_exe = Inr (''#!/usr/bin/env python3 '' @ [LF] @ ''import sys'' @ [LF]) \<and>
   first_line (''#!/usr/bin/env python3 '' @ [LF] @ ''import sys'' @ [LF]) =
     ''#!/usr/bin/env python3 '' \<and>
   ''#!/usr/bin/env python3 '' \<noteq> SHEBANG \<and>
   check_shebang spaced_exe = Inr () \<and>
   fst (mapreduce fresh_world spaced_exe spaced_exe) = None"
proof -
  have "check_shebang spaced_exe = Inr ()"
    by code_simp
  moreover have "fst (mapreduce fresh_world spaced_exe spaced_exe) = None"
    by code_simp
  ultimately show ?thesis
    using first_line_spaced by (simp add: SHEBANG_def)
qed

lemma run_tasks_names:
  assumes "run_tasks exe in_name input_dir out_name [0, 1, 2, 3] ([], ps) = (None, out, ps')"
  shows "\<exists>t0 t1 t2 t3. out =
     [(''part-00000'', t0), (''part-00001'', t1), (''part-00002'', t2), (''part-00003'', t3)]"
  using assms
  by (auto simp: part_filenames_4 Let_def split: option.splits prod.splits if_splits)

text \<open>
  C10. After a run that succeeds, the output directory holds exactly the four plain files
  \<open>part-00000\<close> to \<open>part-00003\<close>, whatever their contents.
\<close>

theorem mapreduce_output_files:
  assumes "fst (mapreduce w map_exe reduce_exe) = None"
  shows "\<exists>t0 t1 t2 t3. fs (snd (mapreduce w map_exe reduce_exe)) (output_place w) =
     Dir [(''part-00000'', Regular t0), (''part-00001'', Regular t1),
          (''part-00002'', Regular t2), (''part-00003'', Regular t3)]"
proof -
  from assms have "\<exists>w1 map_output_dir sorted_dir group_output_dir num_reduce ps out ps'.
      mkdir w = Inr w1 \<and>
      group_stage map_output_dir [] = (sorted_dir, group_output_dir, num_reduce) \<and>
      reduce_stage reduce_exe (tmpdir w @ ''/grouper-output'') group_output_dir
        (tmpdir w @ ''/reducer-output'') [] num_reduce ps = (None, out, ps') \<and>
      fs (snd (mapreduce w map_exe reduce_exe)) (output_place w) =
        Dir (copy_all out (entries_of (fs w1 (output_place w))))"
    by (fastforce simp: mapreduce_def
        split: if_splits sum.splits prod.splits option.splits)
  then obtain w1 map_output_dir sorted_dir group_output_dir num_reduce ps out ps' where
    made: "mkdir w = Inr w1" and
    grouped: "group_stage map_output_dir [] = (sorted_dir, group_output_dir, num_reduce)" and
    reduced: "reduce_stage reduce_exe (tmpdir w @ ''/grouper-output'') group_output_dir
        (tmpdir w @ ''/reducer-output'') [] num_reduce ps = (None, out, ps')" and
    copied: "fs (snd (mapreduce w map_exe reduce_exe)) (output_place w) =
        Dir (copy_all out (entries_of (fs w1 (output_place w))))"
    by blast
  from made have empty: "entries_of (fs w1 (output_place w)) = []"
    by (simp add: mkdir_result entries_of_def)
  from grouped have "num_reduce = MAX_NUM_REDUCE"
    by (simp add: group_stage_eq)
  with reduced have "run_tasks reduce_exe (tmpdir w @ ''/grouper-output'') group_output_dir
      (tmpdir w @ ''/reducer-output'') [0, 1, 2, 3] ([], ps) = (None, out, ps')"
    by (simp add: reduce_stage_def upt_4)
  from run_tasks_names [OF this] obtain t0 t1 t2 t3 where
    "out =
     [(''part-00000'', t0), (''part-00001'', t1), (''part-00002'', t2), (''part-00003'', t3)]"
    by blast
  then have "copy_all out [] =
     [(''part-00000'', Regular t0), (''part-00001'', Regular t1),
      (''part-00002'', Regular t2), (''part-00003'', Regular t3)]"
    by (simp add: copy_all_def)
  with copied empty show ?thesis by simp
qed

lemma words_prepare:
  "prepare_input_files ''input''
     (Dir [(''words.txt'', Regular (''b'' @ [TAB] @ ''1'' @ [LF] @ ''a'' @ [TAB] @ ''1'' @ [LF]))])
     [] =
   Inr ([(''part-00000'', ''b'' @ [TAB] @ ''1'' @ [LF] @ ''a'' @ [TAB] @ ''1'' @ [LF])], 1)"
  by code_simp

lemma words_map:
  "map_stage cat_exe ''/tmp/madoop-x/input''
     [(''part-00000'', ''b'' @ [TAB] @ ''1'' @ [LF] @ ''a'' @ [TAB] @ ''1'' @ [LF])]
     ''/tmp/madoop-x/mapper-output'' [] 1 [] =
   (None, [(''part-00000'', ''b'' @ [TAB] @ ''1'' @ [LF] @ ''a'' @ [TAB] @ ''1'' @ [LF])],
    [(''/home/user/cat.py'', ''/tmp/madoop-x/input/part-00000'',
      ''/tmp/madoop-x/mapper-output/part-00000'')])"
  by code_simp

lemma words_merged:
  "merged_lines [(''part-00000'', ''b'' @ [TAB] @ ''1'' @ [LF] @ ''a'' @ [TAB] @ ''1'' @ [LF])] =
     [''a'' @ [TAB] @ ''1'' @ [LF], ''b'' @ [TAB] @ ''1'' @ [LF]]"
  by code_simp

lemma words_allocate:
  "allocate [''a'' @ [TAB] @ ''1'' @ [LF], ''b'' @ [TAB] @ ''1'' @ [LF]] =
     [[], ''a'' @ [TAB] @ ''1'' @ [LF], [], ''b'' @ [TAB] @ ''1'' @ [LF]]"
proof -
  have a: "reducer_idx [CHR ''a'', TAB, CHR ''1'', LF] = Suc 0"
    by (simp add: reducer_idx_def key_of_def keyhash_a MAX_NUM_REDUCE_def)
  have b: "reducer_idx [CHR ''b'', TAB, CHR ''1'', LF] = Suc (Suc (Suc 0))"
    by (simp add: reducer_idx_def key_of_def keyhash_b MAX_NUM_REDUCE_def)
  have r: "replicate MAX_NUM_REDUCE ([] :: string) = [[], [], [], []]"
    by code_simp
  show ?thesis
    unfolding allocate_def r by (simp add: write_line_def a b)
qed

lemma words_group:
  "group_stage [(''part-00000'', ''b'' @ [TAB] @ ''1'' @ [LF] @ ''a'' @ [TAB] @ ''1'' @ [LF])] [] =
     ([(''part-00000'', ''a'' @ [TAB] @ ''1'' @ [LF] @ ''b'' @ [TAB] @ ''1'' @ [LF])],
      [(''part-00000'', []), (''part-00001'', ''a'' @ [TAB] @ ''1'' @ [LF]),
       (''part-00002'', []), (''part-00003'', ''b'' @ [TAB] @ ''1'' @ [LF])],
      4)"
proof -
  have "sort_file (''b'' @ [TAB] @ ''1'' @ [LF] @ ''a'' @ [TAB] @ ''1'' @ [LF]) =
      ''a'' @ [TAB] @ ''1'' @ [LF] @ ''b'' @ [TAB] @ ''1'' @ [LF]"
    by code_simp
  then show ?thesis
    unfolding group_stage_eq words_merged words_allocate upt_4
    by (simp add: part_filenames_4 MAX_NUM_REDUCE_def)
qed

lemma words_reduce:
  "reduce_stage cat_exe ''/tmp/madoop-x/grouper-output''
     [(''part-00000'', []), (''part-00001'', ''a'' @ [TAB] @ ''1'' @ [LF]),
      (''part-00002'', []), (''part-00003'', ''b'' @ [TAB] @ ''1'' @ [LF])]
     ''/tmp/madoop-x/reducer-output'' [] 4
     [(''/home/user/cat.py'', ''/tmp/madoop-x/input/part-00000'',
       ''/tmp/madoop-x/mapper-output/part-00000'')] =
   (None,
    [(''part-00000'', []), (''part-00001'', ''a'' @ [TAB] @ ''1'' @ [LF]),
     (''part-00002'', []), (''part-00003'', ''b'' @ [TAB] @ ''1'' @ [LF])],
    [(''/home/user/cat.py'', ''/tmp/madoop-x/input/part-00000'',
      ''/tmp/madoop-x/mapper-output/part-00000''),
     (''/home/user/cat.py'', ''/tmp/madoop-x/grouper-output/part-00000'',
      ''/tmp/madoop-x/reducer-output/part-00000''),
     (''/home/user/cat.py'', ''/tmp/madoop-x/grouper-output/part-00001'',
      ''/tmp/madoop-x/reducer-output/part-00001''),
     (''/home/user/cat.py'', ''/tmp/madoop-x/grouper-output/part-00002'',
      ''/tmp/madoop-x/reducer-output/part-00002''),
     (''/home/user/cat.py'', ''/tmp/madoop-x/grouper-output/part-00003'',
      ''/tmp/madoop-x/reducer-output/part-00003'')])"
  by code_simp

lemma words_input: "pathlib_str ''input/'' = ''input''"
  by code_simp

lemma words_run:
  "fst (mapreduce words_world cat_exe cat_exe) = None \<and>
   fs (snd (mapreduce words_world cat_exe cat_exe)) (output_place words_world) =
     Dir [(''part-00000'', Regular []),
          (''part-00001'', Regular (''a'' @ [TAB] @ ''1'' @ [LF])),
          (''part-00002'', Regular []),
          (''part-00003'', Regular (''b'' @ [TAB] @ ''1'' @ [LF]))]"
  using words_prepare words_map words_group words_reduce
  by (simp add: mapreduce_def words_world_def mkdir_def check_shebang_cat copy_all_def
      entries_of_def words_input)

theorem mapreduce_output_files_witness:
  "fst (mapreduce words_world cat_exe cat_exe) = None \<and>
   fs (snd (mapreduce words_world cat_exe cat_exe)) (output_place words_world) =
     Dir [(''part-00000'', Regular []),
          (''part-00001'', Regular (''a'' @ [TAB] @ ''1'' @ [LF])),
          (''part-00002'', Regular []),
          (''part-00003'', Regular (''b'' @ [TAB] @ ''1'' @ [LF]))]"
proof -
  have ok: "fst (mapreduce words_world cat_exe cat_exe) = None"
    using words_run by simp
  from mapreduce_output_files [OF ok] ok words_run show ?thesis
    by simp
qed

end
